theory Spec2Isabelle
  imports
    Main
    "HOL-Library.Word"
    "HOL-Library.Signed_Division"
    "HOL-Library.Multiset"
    "HOL-Library.AList"
begin

section \<open>The executor commitment pool (go/roothash/api/commitment/pool.go)\<close>

subsection \<open>Errors\<close>

text \<open>
  The error values of the package. \<open>ErrPermanent\<close> wraps the error of the commitment's
  signature check (\<open>p2pError.Permanent(err)\<close>), \<open>ErrValidator\<close> is an error of the message
  validator, returned unchanged. \<open>Panic\<close> is not an error value: it stands for a run
  that ends in a Go panic (the explicit one of \<open>ProcessCommitments\<close>, or a nil
  dereference).
\<close>

datatype error =
    ErrNoRuntime
  | ErrNoCommittee
  | ErrInvalidCommitteeKind
  | ErrRakSigInvalid
  | ErrNotInCommittee
  | ErrAlreadyCommitted
  | ErrNotBasedOnCorrectBlock
  | ErrDiscrepancyDetected
  | ErrStillWaiting
  | ErrInsufficientVotes
  | ErrBadExecutorCommitment
  | ErrInvalidMessages
  | ErrTimeoutNotCorrectRound
  | ErrNodeIsScheduler
  | ErrInvalidRound
  | ErrNoProposerCommitment
  | ErrBadProposerCommitment
  | ErrPermanent string
  | ErrValidator string
  | Panic string

subsection \<open>Types declared outside the package\<close>

text \<open>
  Public keys, hashes, runtime identifiers, versions and messages are only compared for
  equality by the pool; they are natural numbers here.
\<close>

type_synonym PublicKey = nat
type_synonym Hash = nat
type_synonym Namespace = nat
type_synonym Version = nat
type_synonym Message = nat

datatype Role = RoleInvalid | RoleWorker | RoleBackupWorker

datatype CommitteeKind = KindInvalid | KindComputeExecutor

datatype TEEHardware = TEEHardwareInvalid | TEEHardwareIntelSGX

record CommitteeNode =
  Role :: Role
  PublicKey :: PublicKey

record Committee =
  Kind :: CommitteeKind
  Members :: "CommitteeNode list"
  ValidFor :: "64 word"

record Deployment =
  Version :: Version

record ExecutorParameters =
  AllowedStragglers :: nat
  MaxMessages :: "32 word"

text \<open>
  The runtime descriptor, with the members the pool reads. \<open>ActiveDeployment\<close> is the
  method of that name, from an epoch to the deployment active in it (or nil).
\<close>

record Runtime =
  ID :: Namespace
  TEEHardware :: TEEHardware
  Executor :: ExecutorParameters
  ActiveDeployment :: "64 word \<Rightarrow> Deployment option"

record CapabilityTEE =
  RAK :: PublicKey

record NodeRuntime =
  CapabilitiesTEE :: "CapabilityTEE option"

record Node =
  GetRuntime :: "Namespace \<Rightarrow> Version \<Rightarrow> NodeRuntime option"

record Block =
  HeaderRound :: "64 word"
  HeaderEncodedHash :: Hash

text \<open>
  The executor commitment type and the committee's scheduler are declared in files that
  are not part of the sources at hand. A commitment is a value of an arbitrary type
  \<open>'c\<close>, and the operations the pool calls on it are the fields of one record that
  every function of the model takes as its first argument:
  \<open>NodeID\<close>, \<open>Messages\<close> and \<open>HeaderMessagesHash\<close> read \<open>commit.NodeID\<close>,
  \<open>commit.Messages\<close> and \<open>commit.Header.Header.MessagesHash\<close>;
  \<open>ValidateBasic\<close> and \<open>VerifyRAK\<close> are true when the method returns a nil error;
  \<open>Verify\<close> returns the error of the signature check, if any;
  \<open>IsParentOf c blk\<close> is \<open>c.Header.Header.IsParentOf(&blk.Header)\<close>;
  \<open>TransactionScheduler\<close> is the committee's method, \<open>None\<close> when it returns an error.
\<close>

record 'c Externals =
  NodeID :: "'c \<Rightarrow> PublicKey"
  Messages :: "'c \<Rightarrow> Message list"
  HeaderMessagesHash :: "'c \<Rightarrow> Hash"
  IsIndicatingFailure :: "'c \<Rightarrow> bool"
  ToVote :: "'c \<Rightarrow> Hash"
  MostlyEqual :: "'c \<Rightarrow> 'c \<Rightarrow> bool"
  ValidateBasic :: "'c \<Rightarrow> bool"
  Verify :: "'c \<Rightarrow> Namespace \<Rightarrow> string option"
  IsParentOf :: "'c \<Rightarrow> Block \<Rightarrow> bool"
  VerifyRAK :: "'c \<Rightarrow> PublicKey \<Rightarrow> bool"
  MessagesHash :: "Message list \<Rightarrow> Hash"
  TransactionScheduler :: "Committee \<Rightarrow> 64 word \<Rightarrow> CommitteeNode option"

subsection \<open>The pool\<close>

text \<open>
  \<open>ExecuteCommitments\<close> is a Go map; it is only read by key and by \<open>len\<close>, never
  iterated, so a partial function models it (a nil map and an empty map are both
  \<open>Map.empty\<close>). The two cached sets are Go maps to \<open>true\<close>: sets of keys.
\<close>

record 'c Pool =
  Runtime :: "Runtime option"
  Committee :: "Committee option"
  Round :: "64 word"
  ExecuteCommitments :: "PublicKey \<rightharpoonup> 'c"
  Discrepancy :: bool
  NextTimeout :: "64 word"
  memberSet :: "PublicKey set"
  workerSet :: "PublicKey set"

definition TimeoutNever :: "64 word" where
  "TimeoutNever = 0"

definition backupWorkerTimeoutFactorNumerator :: "64 word" where
  "backupWorkerTimeoutFactorNumerator = 15"

definition backupWorkerTimeoutFactorDenominator :: "64 word" where
  "backupWorkerTimeoutFactorDenominator = 10"

definition computeMemberSets :: "'c Pool \<Rightarrow> 'c Pool" where
  "computeMemberSets p =
     (case Committee p of
        None \<Rightarrow> p
      | Some cm \<Rightarrow>
          p\<lparr>memberSet := PublicKey ` set (Members cm),
            workerSet := PublicKey ` set (filter (\<lambda>m. Role m = RoleWorker) (Members cm))\<rparr>)"

text \<open>\<open>isMember\<close> and \<open>isWorker\<close> fill the caches when they are empty: they return the pool too.\<close>

definition isMember :: "'c Pool \<Rightarrow> PublicKey \<Rightarrow> 'c Pool \<times> bool" where
  "isMember p pk =
     (case Committee p of
        None \<Rightarrow> (p, False)
      | Some cm \<Rightarrow>
          (let p' = (if memberSet p = {} then computeMemberSets p else p)
           in (p', pk \<in> memberSet p')))"

definition isWorker :: "'c Pool \<Rightarrow> PublicKey \<Rightarrow> 'c Pool \<times> bool" where
  "isWorker p pk =
     (case Committee p of
        None \<Rightarrow> (p, False)
      | Some cm \<Rightarrow>
          (let p' = (if workerSet p = {} then computeMemberSets p else p)
           in (p', pk \<in> workerSet p')))"

definition isScheduler :: "'c Externals \<Rightarrow> 'c Pool \<Rightarrow> PublicKey \<Rightarrow> bool" where
  "isScheduler X p pk =
     (case Committee p of
        None \<Rightarrow> False
      | Some cm \<Rightarrow>
          (case TransactionScheduler X cm (Round p) of
             None \<Rightarrow> False
           | Some s \<Rightarrow> PublicKey s = pk))"

definition ResetCommitments :: "'c Pool \<Rightarrow> 64 word \<Rightarrow> 'c Pool" where
  "ResetCommitments p r =
     p\<lparr>Round := r, ExecuteCommitments := Map.empty, Discrepancy := False,
       NextTimeout := TimeoutNever\<rparr>"

subsection \<open>Admission\<close>

text \<open>The calls a run makes to the two adapters, in order.\<close>

datatype adapter_call = NodeLookupCall PublicKey | MessageValidatorCall "Message list"

text \<open>
  The RAK attestation check of \<open>addVerifiedExecutorCommitment\<close>. The node lookup
  \<open>nl\<close> returns \<open>None\<close> when \<open>nl.Node\<close> returns an error.
\<close>

definition verifyAttestation ::
  "'c Externals \<Rightarrow> Runtime \<Rightarrow> Committee \<Rightarrow> (PublicKey \<Rightarrow> Node option) \<Rightarrow> 'c
    \<Rightarrow> error option \<times> adapter_call list" where
  "verifyAttestation X rt cm nl c =
     (if TEEHardware rt \<noteq> TEEHardwareInvalid then
        (case nl (NodeID X c) of
           None \<Rightarrow> (Some ErrNotInCommittee, [NodeLookupCall (NodeID X c)])
         | Some n \<Rightarrow>
             (case ActiveDeployment rt (ValidFor cm) of
                None \<Rightarrow> (Some ErrNoRuntime, [NodeLookupCall (NodeID X c)])
              | Some ad \<Rightarrow>
                  (case GetRuntime n (ID rt) (Version ad) of
                     None \<Rightarrow> (Some ErrNotInCommittee, [NodeLookupCall (NodeID X c)])
                   | Some nrt \<Rightarrow>
                       (case CapabilitiesTEE nrt of
                          None \<Rightarrow> (Some ErrRakSigInvalid, [NodeLookupCall (NodeID X c)])
                        | Some tee \<Rightarrow>
                            if \<not> VerifyRAK X c (RAK tee)
                            then (Some ErrRakSigInvalid, [NodeLookupCall (NodeID X c)])
                            else (None, [NodeLookupCall (NodeID X c)])))))
      else (None, []))"

text \<open>
  The check of the emitted runtime messages. \<open>uint32(len(commit.Messages))\<close> truncates
  the length to 32 bits. The validator \<open>mv\<close> is \<open>None\<close> when the function value is nil.
\<close>

definition checkMessages ::
  "'c Externals \<Rightarrow> 'c Pool \<Rightarrow> Runtime \<Rightarrow> (Message list \<Rightarrow> string option) option \<Rightarrow> 'c
    \<Rightarrow> error option \<times> adapter_call list" where
  "checkMessages X p rt mv c =
     (if isScheduler X p (NodeID X c) then
        (if (of_nat (length (Messages X c)) :: 32 word) > MaxMessages (Executor rt)
         then (Some ErrInvalidMessages, [])
         else if MessagesHash X (Messages X c) \<noteq> HeaderMessagesHash X c
         then (Some ErrInvalidMessages, [])
         else (case mv of
                 None \<Rightarrow> (None, [])
               | Some validate \<Rightarrow>
                   if length (Messages X c) > 0 then
                     (case validate (Messages X c) of
                        Some e \<Rightarrow> (Some (ErrValidator e), [MessageValidatorCall (Messages X c)])
                      | None \<Rightarrow> (None, [MessageValidatorCall (Messages X c)]))
                   else (None, [])))
      else if length (Messages X c) > 0 then (Some ErrInvalidMessages, [])
      else (None, []))"

text \<open>The body of \<open>switch commit.IsIndicatingFailure()\<close>: nothing in the case \<open>true\<close>.\<close>

definition checkCommitment ::
  "'c Externals \<Rightarrow> 'c Pool \<Rightarrow> Runtime \<Rightarrow> Committee \<Rightarrow> (PublicKey \<Rightarrow> Node option)
    \<Rightarrow> (Message list \<Rightarrow> string option) option \<Rightarrow> 'c \<Rightarrow> error option \<times> adapter_call list" where
  "checkCommitment X p rt cm nl mv c =
     (if IsIndicatingFailure X c then (None, [])
      else
        (case verifyAttestation X rt cm nl c of
           (Some e, calls) \<Rightarrow> (Some e, calls)
         | (None, calls) \<Rightarrow>
             (case checkMessages X p rt mv c of
                (r, calls') \<Rightarrow> (r, calls @ calls'))))"

definition addVerifiedExecutorCommitment ::
  "'c Externals \<Rightarrow> 'c Pool \<Rightarrow> Block \<Rightarrow> (PublicKey \<Rightarrow> Node option)
    \<Rightarrow> (Message list \<Rightarrow> string option) option \<Rightarrow> 'c
    \<Rightarrow> 'c Pool \<times> error option \<times> adapter_call list" where
  "addVerifiedExecutorCommitment X p blk nl mv c =
     (case Committee p of
        None \<Rightarrow> (p, Some ErrNoCommittee, [])
      | Some cm \<Rightarrow>
          if Kind cm \<noteq> KindComputeExecutor then (p, Some ErrInvalidCommitteeKind, [])
          else
            (case isMember p (NodeID X c) of
               (p1, member) \<Rightarrow>
                 if \<not> member then (p1, Some ErrNotInCommittee, [])
                 else if ExecuteCommitments p1 (NodeID X c) \<noteq> None
                 then (p1, Some ErrAlreadyCommitted, [])
                 else
                   (case Runtime p1 of
                      None \<Rightarrow> (p1, Some ErrNoRuntime, [])
                    | Some rt \<Rightarrow>
                        if Round p1 \<noteq> HeaderRound blk then (p1, Some ErrInvalidRound, [])
                        else if \<not> IsParentOf X c blk
                        then (p1, Some ErrNotBasedOnCorrectBlock, [])
                        else if \<not> ValidateBasic X c
                        then (p1, Some ErrBadExecutorCommitment, [])
                        else
                          (case checkCommitment X p1 rt cm nl mv c of
                             (Some e, calls) \<Rightarrow> (p1, Some e, calls)
                           | (None, calls) \<Rightarrow>
                               (p1\<lparr>ExecuteCommitments :=
                                     (ExecuteCommitments p1)(NodeID X c \<mapsto> c)\<rparr>,
                                None, calls)))))"

definition AddExecutorCommitment ::
  "'c Externals \<Rightarrow> 'c Pool \<Rightarrow> Block \<Rightarrow> (PublicKey \<Rightarrow> Node option) \<Rightarrow> 'c
    \<Rightarrow> (Message list \<Rightarrow> string option) option
    \<Rightarrow> 'c Pool \<times> error option \<times> adapter_call list" where
  "AddExecutorCommitment X p blk nl c mv =
     (case Runtime p of
        None \<Rightarrow> (p, Some ErrNoRuntime, [])
      | Some rt \<Rightarrow>
          (case Verify X c (ID rt) of
             Some e \<Rightarrow> (p, Some (ErrPermanent e), [])
           | None \<Rightarrow> addVerifiedExecutorCommitment X p blk nl mv c))"

subsection \<open>The tally\<close>

record 'c vote =
  commit :: "'c option"
  tally :: int

text \<open>
  The map \<open>votes\<close> is a list of entries with distinct keys, in the order the keys were
  first stored. \<open>addVote\<close> is the body of the loop from \<open>k := commit.ToVote()\<close> on: a new
  key gets the commitment and the tally 1, a known key has its tally incremented.
\<close>

type_synonym 'c votes = "(Hash \<times> 'c vote) list"

definition addVote :: "'c Externals \<Rightarrow> 'c \<Rightarrow> 'c votes \<Rightarrow> 'c votes" where
  "addVote X c votes =
     (let k = ToVote X c
      in case map_of votes k of
           None \<Rightarrow> AList.update k \<lparr>commit = Some c, tally = 1\<rparr> votes
         | Some v \<Rightarrow> AList.update k (v\<lparr>tally := tally v + 1\<rparr>) votes)"

text \<open>
  The loop over the committee members, from the state (total, commits, failures, votes);
  the variable \<open>total\<close> of the source is \<open>ntotal\<close> here.
  \<open>None\<close> is the early return inside the loop, taken in detection mode as soon as the
  map holds two keys. The flag \<open>d\<close> is \<open>p.Discrepancy\<close>, which the loop does not change
  before that return.
\<close>

fun gatherVotes ::
  "'c Externals \<Rightarrow> bool \<Rightarrow> (PublicKey \<rightharpoonup> 'c) \<Rightarrow> CommitteeNode list
    \<Rightarrow> int \<times> int \<times> int \<times> 'c votes \<Rightarrow> (int \<times> int \<times> int \<times> 'c votes) option" where
  "gatherVotes X d cs [] acc = Some acc"
| "gatherVotes X d cs (n # ns) (ntotal, commits, failures, votes) =
     (if \<not> d \<and> Role n \<noteq> RoleWorker then gatherVotes X d cs ns (ntotal, commits, failures, votes)
      else if d \<and> Role n \<noteq> RoleBackupWorker
      then gatherVotes X d cs ns (ntotal, commits, failures, votes)
      else
        (case cs (PublicKey n) of
           None \<Rightarrow> gatherVotes X d cs ns (ntotal + 1, commits, failures, votes)
         | Some c \<Rightarrow>
             if IsIndicatingFailure X c
             then gatherVotes X d cs ns (ntotal + 1, commits + 1, failures + 1, votes)
             else
               (let votes' = addVote X c votes
                in if \<not> d \<and> length votes' > 1 then None
                   else gatherVotes X d cs ns (ntotal + 1, commits + 1, failures, votes'))))"

text \<open>The case \<open>false\<close> of \<open>switch p.Discrepancy\<close>: discrepancy detection.\<close>

definition detectDiscrepancy ::
  "'c Pool \<Rightarrow> bool \<Rightarrow> int \<Rightarrow> int \<Rightarrow> int \<Rightarrow> 'c option \<Rightarrow> 'c Pool \<times> (error + 'c)" where
  "detectDiscrepancy p didTimeout ntotal commits failures proposerCommit =
     (case Runtime p of
        None \<Rightarrow> (p, Inl (Panic ''nil pointer dereference''))
      | Some rt \<Rightarrow>
          (let allowedStragglers = int (AllowedStragglers (Executor rt))
           in if failures > allowedStragglers
              then (p\<lparr>Discrepancy := True\<rparr>, Inl ErrDiscrepancyDetected)
              else
                (let required = (if didTimeout then ntotal - allowedStragglers else ntotal);
                     commits' = (if didTimeout then commits - failures else commits)
                 in if commits' < required \<or> proposerCommit = None
                    then (p, Inl ErrStillWaiting)
                    else (p, Inr (the proposerCommit)))))"

text \<open>
  The search for the top vote. Go iterates a map in an order of the runtime's choice:
  \<open>iter\<close> is that choice, a reordering of the entries.
\<close>

definition higherVote :: "Hash \<times> 'c vote \<Rightarrow> 'c vote \<Rightarrow> 'c vote" where
  "higherVote e topVote = (if tally (snd e) > tally topVote then snd e else topVote)"

definition findTopVote :: "'c votes \<Rightarrow> 'c vote" where
  "findTopVote votes = fold higherVote votes \<lparr>commit = None, tally = 0\<rparr>"

definition iteration_order :: "('c votes \<Rightarrow> 'c votes) \<Rightarrow> bool" where
  "iteration_order iter = (\<forall>votes. mset (iter votes) = mset votes)"

text \<open>
  The case \<open>true\<close>: discrepancy resolution. Go's \<open>total/2\<close> truncates (\<open>sdiv\<close>). A top
  vote without a commitment is the zero vote, on which \<open>MostlyEqual\<close> would dereference nil.
\<close>

definition resolveDiscrepancy ::
  "'c Externals \<Rightarrow> ('c votes \<Rightarrow> 'c votes) \<Rightarrow> 'c Pool \<Rightarrow> bool \<Rightarrow> int \<Rightarrow> int \<Rightarrow> 'c votes
    \<Rightarrow> 'c option \<Rightarrow> 'c Pool \<times> (error + 'c)" where
  "resolveDiscrepancy X iter p didTimeout ntotal commits votes proposerCommit =
     (let required = ntotal sdiv 2 + 1;
          topVote = findTopVote (iter votes);
          remaining = ntotal - commits
      in if tally topVote + remaining < required then (p, Inl ErrInsufficientVotes)
         else
           if tally topVote < required \<or> proposerCommit = None
           then (if didTimeout then (p, Inl ErrInsufficientVotes) else (p, Inl ErrStillWaiting))
           else
             (case commit topVote of
                None \<Rightarrow> (p, Inl (Panic ''nil pointer dereference''))
              | Some w \<Rightarrow>
                  if \<not> MostlyEqual X (the proposerCommit) w
                  then (p, Inl ErrBadProposerCommitment)
                  else (p, Inr (the proposerCommit))))"

definition ProcessCommitments ::
  "'c Externals \<Rightarrow> ('c votes \<Rightarrow> 'c votes) \<Rightarrow> 'c Pool \<Rightarrow> bool \<Rightarrow> 'c Pool \<times> (error + 'c)" where
  "ProcessCommitments X iter p didTimeout =
     (case Committee p of
        None \<Rightarrow> (p, Inl ErrNoCommittee)
      | Some cm \<Rightarrow>
          if Kind cm \<noteq> KindComputeExecutor
          then (p, Inl (Panic ''roothash/commitment: unknown committee kind''))
          else
            (case gatherVotes X (Discrepancy p) (ExecuteCommitments p) (Members cm) (0, 0, 0, []) of
               None \<Rightarrow> (p\<lparr>Discrepancy := True\<rparr>, Inl ErrDiscrepancyDetected)
             | Some (ntotal, commits, failures, votes) \<Rightarrow>
                 (case TransactionScheduler X cm (Round p) of
                    None \<Rightarrow> (p, Inl ErrNoCommittee)
                  | Some proposer \<Rightarrow>
                      (let proposerCommit = ExecuteCommitments p (PublicKey proposer)
                       in if proposerCommit = None \<and> didTimeout
                          then (p, Inl ErrNoProposerCommitment)
                          else if \<not> Discrepancy p
                          then detectDiscrepancy p didTimeout ntotal commits failures proposerCommit
                          else resolveDiscrepancy X iter p didTimeout ntotal commits votes
                                 proposerCommit))))"

subsection \<open>Proposer timeout and finalization\<close>

definition CheckProposerTimeout ::
  "'c Externals \<Rightarrow> 'c Pool \<Rightarrow> Block \<Rightarrow> (PublicKey \<Rightarrow> Node option) \<Rightarrow> PublicKey \<Rightarrow> 64 word
    \<Rightarrow> 'c Pool \<times> error option" where
  "CheckProposerTimeout X p blk nl pk r =
     (case Committee p of
        None \<Rightarrow> (p, Some ErrNoCommittee)
      | Some cm \<Rightarrow>
          if Kind cm \<noteq> KindComputeExecutor then (p, Some ErrInvalidCommitteeKind)
          else if r \<noteq> HeaderRound blk then (p, Some ErrTimeoutNotCorrectRound)
          else if ExecuteCommitments p \<noteq> Map.empty then (p, Some ErrAlreadyCommitted)
          else
            (case isWorker p pk of
               (p1, worker) \<Rightarrow>
                 if \<not> worker then (p1, Some ErrNotInCommittee)
                 else if isScheduler X p1 pk then (p1, Some ErrNodeIsScheduler)
                 else (p1, None)))"

text \<open>Go's \<open>/\<close> on \<open>int64\<close>: the quotient truncated towards zero, in 64 bits.\<close>

definition int64_div :: "64 word \<Rightarrow> 64 word \<Rightarrow> 64 word" where
  "int64_div a b = word_of_int (sint a sdiv sint b)"

text \<open>
  The switch of \<open>TryFinalize\<close> on the error of \<open>ProcessCommitments\<close>: the pool, the flag
  \<open>rearmTimer\<close>, the value of \<open>roundTimeout\<close> and the result at the return.
\<close>

definition tryFinalizeSwitch ::
  "'c Pool \<Rightarrow> error + 'c \<Rightarrow> 64 word \<Rightarrow> bool \<Rightarrow> bool \<Rightarrow> 'c Pool \<times> bool \<times> 64 word \<times> (error + 'c)" where
  "tryFinalizeSwitch p res roundTimeout didTimeout isTimeoutAuthoritative =
     (case res of
        Inr c \<Rightarrow> (p, False, roundTimeout, Inr c)
      | Inl err \<Rightarrow>
          if err = ErrStillWaiting then
            (if didTimeout then
               (if isTimeoutAuthoritative
                then (p\<lparr>Discrepancy := True\<rparr>, True,
                      int64_div (backupWorkerTimeoutFactorNumerator * roundTimeout)
                        backupWorkerTimeoutFactorDenominator,
                      Inl ErrDiscrepancyDetected)
                else (p, False, roundTimeout, Inl ErrDiscrepancyDetected))
             else (p, True, roundTimeout, Inl err))
          else if err = ErrDiscrepancyDetected then (p, True, roundTimeout, Inl err)
          else (p, False, roundTimeout, Inl err))"

text \<open>
  \<open>TryFinalize\<close>: the switch, then the deferred function, which also runs when
  \<open>ProcessCommitments\<close> panics.
\<close>

definition TryFinalize ::
  "'c Externals \<Rightarrow> ('c votes \<Rightarrow> 'c votes) \<Rightarrow> 'c Pool \<Rightarrow> 64 word \<Rightarrow> 64 word \<Rightarrow> bool \<Rightarrow> bool
    \<Rightarrow> 'c Pool \<times> (error + 'c)" where
  "TryFinalize X iter p height roundTimeout didTimeout isTimeoutAuthoritative =
     (case ProcessCommitments X iter p didTimeout of
        (p1, res) \<Rightarrow>
          (case tryFinalizeSwitch p1 res roundTimeout didTimeout isTimeoutAuthoritative of
             (p2, rearmTimer, roundTimeout', out) \<Rightarrow>
               (if rearmTimer then p2\<lparr>NextTimeout := height + roundTimeout'\<rparr>
                else p2\<lparr>NextTimeout := TimeoutNever\<rparr>,
                out)))"

definition IsTimeout :: "'c Pool \<Rightarrow> 64 word \<Rightarrow> bool" where
  "IsTimeout p height = (NextTimeout p \<noteq> TimeoutNever \<and> sint (NextTimeout p) \<le> sint height)"

subsection \<open>Sequences of pool operations\<close>

text \<open>
  The public operations with their arguments (for \<open>ProcessCommitments\<close> and
  \<open>TryFinalize\<close> also the iteration order the runtime picks in that call), and the pool
  after each.
\<close>

datatype 'c operation =
    OpResetCommitments "64 word"
  | OpAddExecutorCommitment Block "PublicKey \<Rightarrow> Node option" 'c
      "(Message list \<Rightarrow> string option) option"
  | OpProcessCommitments "'c votes \<Rightarrow> 'c votes" bool
  | OpCheckProposerTimeout Block "PublicKey \<Rightarrow> Node option" PublicKey "64 word"
  | OpTryFinalize "'c votes \<Rightarrow> 'c votes" "64 word" "64 word" bool bool
  | OpIsTimeout "64 word"

fun step :: "'c Externals \<Rightarrow> 'c Pool \<Rightarrow> 'c operation \<Rightarrow> 'c Pool" where
  "step X p (OpResetCommitments r) = ResetCommitments p r"
| "step X p (OpAddExecutorCommitment blk nl c mv) = fst (AddExecutorCommitment X p blk nl c mv)"
| "step X p (OpProcessCommitments iter didTimeout) = fst (ProcessCommitments X iter p didTimeout)"
| "step X p (OpCheckProposerTimeout blk nl pk r) = fst (CheckProposerTimeout X p blk nl pk r)"
| "step X p (OpTryFinalize iter height roundTimeout didTimeout isTimeoutAuthoritative) =
     fst (TryFinalize X iter p height roundTimeout didTimeout isTimeoutAuthoritative)"
| "step X p (OpIsTimeout height) = p"

definition run :: "'c Externals \<Rightarrow> 'c Pool \<Rightarrow> 'c operation list \<Rightarrow> 'c Pool" where
  "run X p ops = foldl (step X) p ops"

fun is_reset :: "'c operation \<Rightarrow> bool" where
  "is_reset (OpResetCommitments r) = True"
| "is_reset _ = False"

section \<open>Notions the properties are stated with\<close>

text \<open>
  The members a tally counts: the workers in detection mode, the backup workers in
  resolution mode, in the committee's order; the commitments they have in the pool; among
  these the failure-indicating ones and the voting (other) ones.
\<close>

definition activeRole :: "bool \<Rightarrow> Role" where
  "activeRole d = (if d then RoleBackupWorker else RoleWorker)"

definition activeMembers :: "bool \<Rightarrow> CommitteeNode list \<Rightarrow> CommitteeNode list" where
  "activeMembers d ms = filter (\<lambda>n. Role n = activeRole d) ms"

definition submitted :: "(PublicKey \<rightharpoonup> 'c) \<Rightarrow> CommitteeNode list \<Rightarrow> 'c list" where
  "submitted cs ms = List.map_filter (\<lambda>n. cs (PublicKey n)) ms"

definition failing :: "'c Externals \<Rightarrow> 'c list \<Rightarrow> 'c list" where
  "failing X cl = filter (IsIndicatingFailure X) cl"

definition voting :: "'c Externals \<Rightarrow> 'c list \<Rightarrow> 'c list" where
  "voting X cl = filter (\<lambda>c. \<not> IsIndicatingFailure X c) cl"

definition tallied :: "'c Pool \<Rightarrow> Committee \<Rightarrow> 'c list" where
  "tallied p cm = submitted (ExecuteCommitments p) (activeMembers (Discrepancy p) (Members cm))"

definition countTotal :: "'c Pool \<Rightarrow> Committee \<Rightarrow> int" where
  "countTotal p cm = int (length (activeMembers (Discrepancy p) (Members cm)))"

definition countCommits :: "'c Pool \<Rightarrow> Committee \<Rightarrow> int" where
  "countCommits p cm = int (length (tallied p cm))"

definition countFailures :: "'c Externals \<Rightarrow> 'c Pool \<Rightarrow> Committee \<Rightarrow> int" where
  "countFailures X p cm = int (length (failing X (tallied p cm)))"

text \<open>Two different vote keys among a set of keys.\<close>

definition split_keys :: "Hash set \<Rightarrow> bool" where
  "split_keys S = (\<exists>a\<in>S. \<exists>b\<in>S. a \<noteq> b)"

definition votesSplit :: "'c Externals \<Rightarrow> 'c Pool \<Rightarrow> Committee \<Rightarrow> bool" where
  "votesSplit X p cm = split_keys (ToVote X ` set (voting X (tallied p cm)))"

text \<open>
  The number of voting commitments with the key \<open>k\<close>, the highest such number (0 without
  votes), and the first voting commitment whose key has at least \<open>required\<close> votes.
\<close>

definition tallyFor :: "'c Externals \<Rightarrow> Hash \<Rightarrow> 'c list \<Rightarrow> int" where
  "tallyFor X k cl = int (length (filter (\<lambda>c. ToVote X c = k) cl))"

definition topTally :: "'c Externals \<Rightarrow> 'c list \<Rightarrow> int" where
  "topTally X cl = Max (insert 0 ((\<lambda>c. tallyFor X (ToVote X c) cl) ` set cl))"

definition winner :: "'c Externals \<Rightarrow> 'c list \<Rightarrow> int \<Rightarrow> 'c option" where
  "winner X cl required = find (\<lambda>c. required \<le> tallyFor X (ToVote X c) cl) cl"

text \<open>
  The verdict of a tally of the backup workers, stated on the committee's list without
  the loop, the votes map and its iteration: the total is the number of backup workers,
  the commits are the commitments these have in the pool, the votes are the ones among
  them that do not indicate failure. No commitment of a worker is read but the
  proposer's.
\<close>

definition backupWorkers :: "Committee \<Rightarrow> CommitteeNode list" where
  "backupWorkers cm = filter (\<lambda>n. Role n = RoleBackupWorker) (Members cm)"

definition resolutionVerdict :: "'c Externals \<Rightarrow> 'c Pool \<Rightarrow> bool \<Rightarrow> 'c Pool \<times> (error + 'c)" where
  "resolutionVerdict X q didTimeout =
     (case Committee q of
        None \<Rightarrow> (q, Inl ErrNoCommittee)
      | Some cm \<Rightarrow>
          if Kind cm \<noteq> KindComputeExecutor
          then (q, Inl (Panic ''roothash/commitment: unknown committee kind''))
          else
            (case TransactionScheduler X cm (Round q) of
               None \<Rightarrow> (q, Inl ErrNoCommittee)
             | Some proposer \<Rightarrow>
                 (let cl = submitted (ExecuteCommitments q) (backupWorkers cm);
                      ntotal = int (length (backupWorkers cm));
                      commits = int (length cl);
                      required = ntotal div 2 + 1;
                      top = topTally X (voting X cl);
                      pc = ExecuteCommitments q (PublicKey proposer)
                  in if pc = None \<and> didTimeout then (q, Inl ErrNoProposerCommitment)
                     else if top + (ntotal - commits) < required
                     then (q, Inl ErrInsufficientVotes)
                     else if top < required \<or> pc = None
                     then (q, Inl (if didTimeout then ErrInsufficientVotes else ErrStillWaiting))
                     else
                       (case winner X (voting X cl) required of
                          None \<Rightarrow> (q, Inl (Panic ''nil pointer dereference''))
                        | Some w \<Rightarrow>
                            if MostlyEqual X (the pc) w then (q, Inr (the pc))
                            else (q, Inl ErrBadProposerCommitment)))))"

text \<open>
  The keys of the committee's members and of its workers, and the state of the two caches:
  each is empty or holds exactly those keys. A pool is created with empty caches, only
  \<open>computeMemberSets\<close> writes them, and no operation of the pool replaces the committee.
\<close>

definition committeeKeys :: "'c Pool \<Rightarrow> PublicKey set" where
  "committeeKeys p =
     (case Committee p of None \<Rightarrow> {} | Some cm \<Rightarrow> PublicKey ` set (Members cm))"

definition workerKeys :: "'c Pool \<Rightarrow> PublicKey set" where
  "workerKeys p =
     (case Committee p of
        None \<Rightarrow> {}
      | Some cm \<Rightarrow> PublicKey ` set (filter (\<lambda>m. Role m = RoleWorker) (Members cm)))"

definition caches_valid :: "'c Pool \<Rightarrow> bool" where
  "caches_valid p =
     ((memberSet p = {} \<or> memberSet p = committeeKeys p) \<and>
      (workerSet p = {} \<or> workerSet p = workerKeys p))"

definition pool_invariant :: "'c Pool \<Rightarrow> bool" where
  "pool_invariant p = (caches_valid p \<and> dom (ExecuteCommitments p) \<subseteq> committeeKeys p)"

section \<open>A sample committee\<close>

text \<open>
  A concrete commitment type and committee, to run the model on: three workers with the
  keys 1, 2, 3, two backup workers 4 and 5, one allowed straggler, at most four messages.
  The operations of the sample follow what the specification says of the absent ones:
  the scheduler maps a round to one worker (here the workers in turn, so the proposer of
  round 0 is worker 1), the vote key is a fingerprint of the verdict, and two commitments
  are mostly equal when they agree on it, and \<open>ValidateBasic\<close> wants the messages field
  consistent with the failure flag: a failure-indicating commitment carries no messages.
  The stand-in for the hash of a message list is its sum; the signature and parent checks
  pass, every attestation check fails.
\<close>

record SampleCommitment =
  sNode :: PublicKey
  sFailure :: bool
  sVote :: Hash
  sMessages :: "Message list"
  sMessagesHash :: Hash

definition sampleScheduler :: "Committee \<Rightarrow> 64 word \<Rightarrow> CommitteeNode option" where
  "sampleScheduler cm r =
     (case filter (\<lambda>m. Role m = RoleWorker) (Members cm) of
        [] \<Rightarrow> None
      | w # ws \<Rightarrow> Some ((w # ws) ! (unat r mod length (w # ws))))"

definition sampleExternals :: "SampleCommitment Externals" where
  "sampleExternals =
     \<lparr>NodeID = sNode, Messages = sMessages, HeaderMessagesHash = sMessagesHash,
      IsIndicatingFailure = sFailure, ToVote = sVote,
      MostlyEqual = (\<lambda>a b. sVote a = sVote b),
      ValidateBasic = (\<lambda>c. if sFailure c then sMessages c = [] else True),
      Verify = (\<lambda>c rid. None),
      IsParentOf = (\<lambda>c blk. True), VerifyRAK = (\<lambda>c rak. False),
      MessagesHash = sum_list, TransactionScheduler = sampleScheduler\<rparr>"

definition sampleCommittee :: Committee where
  "sampleCommittee =
     \<lparr>Kind = KindComputeExecutor,
      Members =
        [\<lparr>Role = RoleWorker, PublicKey = 1\<rparr>, \<lparr>Role = RoleWorker, PublicKey = 2\<rparr>,
         \<lparr>Role = RoleWorker, PublicKey = 3\<rparr>, \<lparr>Role = RoleBackupWorker, PublicKey = 4\<rparr>,
         \<lparr>Role = RoleBackupWorker, PublicKey = 5\<rparr>],
      ValidFor = 0\<rparr>"

definition sampleRuntime :: Runtime where
  "sampleRuntime =
     \<lparr>ID = 7, TEEHardware = TEEHardwareInvalid,
      Executor = \<lparr>AllowedStragglers = 1, MaxMessages = 4\<rparr>,
      ActiveDeployment = (\<lambda>e. None)\<rparr>"

text \<open>The same runtime, requiring trusted execution.\<close>

definition sampleTEERuntime :: Runtime where
  "sampleTEERuntime = sampleRuntime\<lparr>TEEHardware := TEEHardwareIntelSGX\<rparr>"

text \<open>The pool with the commitments \<open>cs\<close> and the discrepancy flag \<open>d\<close>, in round 0.\<close>

definition samplePool :: "(PublicKey \<rightharpoonup> SampleCommitment) \<Rightarrow> bool \<Rightarrow> SampleCommitment Pool" where
  "samplePool cs d =
     \<lparr>Runtime = Some sampleRuntime, Committee = Some sampleCommittee, Round = 0,
      ExecuteCommitments = cs, Discrepancy = d, NextTimeout = 0,
      memberSet = {}, workerSet = {}\<rparr>"

text \<open>A commitment of node \<open>n\<close> for the verdict \<open>v\<close>, and one indicating failure.\<close>

definition verdict :: "PublicKey \<Rightarrow> Hash \<Rightarrow> SampleCommitment" where
  "verdict n v = \<lparr>sNode = n, sFailure = False, sVote = v, sMessages = [], sMessagesHash = 0\<rparr>"

definition failure :: "PublicKey \<Rightarrow> SampleCommitment" where
  "failure n = \<lparr>sNode = n, sFailure = True, sVote = 0, sMessages = [], sMessagesHash = 0\<rparr>"

definition sampleBlock :: Block where
  "sampleBlock = \<lparr>HeaderRound = 0, HeaderEncodedHash = 0\<rparr>"

section \<open>The loop over the members\<close>

lemma gather_resolution:
  "gatherVotes X True cs ms (t, c, f, vs) =
     Some (t + int (length (activeMembers True ms)),
           c + int (length (submitted cs (activeMembers True ms))),
           f + int (length (failing X (submitted cs (activeMembers True ms)))),
           fold (addVote X) (voting X (submitted cs (activeMembers True ms))) vs)"
  by (induction ms arbitrary: t c f vs)
     (auto simp: activeMembers_def activeRole_def submitted_def failing_def voting_def
        Let_def split: option.splits)

lemma addVote_keys: "fst ` set (addVote X c vs) = insert (ToVote X c) (fst ` set vs)"
  by (auto simp: addVote_def Let_def dom_update split: option.splits)

lemma addVote_distinct: "distinct (map fst vs) \<Longrightarrow> distinct (map fst (addVote X c vs))"
  by (auto simp: addVote_def Let_def distinct_update split: option.splits)

lemma length_update:
  "length (AList.update k v al) = (if k \<in> fst ` set al then length al else Suc (length al))"
  by (induction al) auto

lemma addVote_length:
  "length (addVote X c vs) = (if ToVote X c \<in> fst ` set vs then length vs else Suc (length vs))"
  by (simp add: addVote_def Let_def length_update split: option.splits)

lemma gather_detection:
  "length vs \<le> 1 \<Longrightarrow>
   gatherVotes X False cs ms (t, c, f, vs) =
     (if split_keys (fst ` set vs \<union> ToVote X ` set (voting X (submitted cs (activeMembers False ms))))
      then None
      else Some (t + int (length (activeMembers False ms)),
           c + int (length (submitted cs (activeMembers False ms))),
           f + int (length (failing X (submitted cs (activeMembers False ms)))),
           fold (addVote X) (voting X (submitted cs (activeMembers False ms))) vs))"
proof (induction ms arbitrary: t c f vs)
  case Nil
  have "\<not> split_keys (fst ` set vs)"
    using Nil by (cases vs) (auto simp: split_keys_def)
  then show ?case
    by (simp add: activeMembers_def submitted_def failing_def voting_def map_filter_simps)
next
  case (Cons n ns)
  show ?case
  proof (cases "Role n = RoleWorker")
    case False
    then show ?thesis using Cons.IH [OF Cons.prems, of t c f]
      by (simp add: activeMembers_def activeRole_def)
  next
    case True
    note worker = this
    show ?thesis
    proof (cases "cs (PublicKey n)")
      case None
      then show ?thesis using worker Cons.IH [OF Cons.prems, of "t + 1" c f]
        by (simp add: activeMembers_def activeRole_def submitted_def)
    next
      case (Some x)
      show ?thesis
      proof (cases "IsIndicatingFailure X x")
        case True
        then show ?thesis using worker Some Cons.IH [OF Cons.prems, of "t + 1" "c + 1" "f + 1"]
          by (simp add: activeMembers_def activeRole_def submitted_def failing_def voting_def)
      next
        case False
        show ?thesis
        proof (cases "length (addVote X x vs) > 1")
          case True
          then obtain k where "k \<in> fst ` set vs" "k \<noteq> ToVote X x"
            using Cons.prems by (cases vs) (auto simp: addVote_length split: if_splits)
          then have "split_keys (fst ` set vs \<union>
              ToVote X ` set (voting X (submitted cs (activeMembers False (n # ns)))))"
            using worker Some False
            by (auto simp: split_keys_def activeMembers_def activeRole_def submitted_def voting_def)
          then show ?thesis using worker Some False True by simp
        next
          case le: False
          then have "length (addVote X x vs) \<le> 1" by simp
          from Cons.IH [OF this, of "t + 1" "c + 1" f]
          show ?thesis using worker Some False le
            by (simp add: activeMembers_def activeRole_def submitted_def failing_def voting_def
                addVote_keys Un_commute insert_commute)
        qed
      qed
    qed
  qed
qed

section \<open>The votes and the top vote\<close>

lemma map_of_addVote:
  "map_of (addVote X c vs) k =
     (if k = ToVote X c then
        (case map_of vs k of
           None \<Rightarrow> Some \<lparr>commit = Some c, tally = 1\<rparr>
         | Some v \<Rightarrow> Some (v\<lparr>tally := tally v + 1\<rparr>))
      else map_of vs k)"
  by (simp add: addVote_def Let_def update_conv' split: option.splits)

lemma map_of_fold_addVote:
  "map_of (fold (addVote X) cl vs) k =
     (case map_of vs k of
        Some v \<Rightarrow> Some (v\<lparr>tally := tally v + tallyFor X k cl\<rparr>)
      | None \<Rightarrow>
          (case find (\<lambda>c. ToVote X c = k) cl of
             None \<Rightarrow> None
           | Some c \<Rightarrow> Some \<lparr>commit = Some c, tally = tallyFor X k cl\<rparr>))"
proof (induction cl arbitrary: vs)
  case Nil
  show ?case by (simp add: tallyFor_def split: option.splits)
next
  case (Cons c cl)
  show ?case
    by (simp add: Cons.IH map_of_addVote tallyFor_def split: option.splits)
qed

lemma distinct_fold_addVote:
  "distinct (map fst vs) \<Longrightarrow> distinct (map fst (fold (addVote X) cl vs))"
  by (induction cl arbitrary: vs) (simp_all add: addVote_distinct)

lemma fold_higherVote_mem:
  "fold higherVote es tv = tv \<or> fold higherVote es tv \<in> snd ` set es"
proof (induction es arbitrary: tv)
  case Nil
  show ?case by simp
next
  case (Cons e es)
  have "higherVote e tv = tv \<or> higherVote e tv = snd e" by (simp add: higherVote_def)
  then show ?case using Cons.IH [of "higherVote e tv"]
    by auto
qed

lemma fold_higherVote_ge_top: "tally tv \<le> tally (fold higherVote es tv)"
proof (induction es arbitrary: tv)
  case Nil
  show ?case by simp
next
  case (Cons e es)
  have "tally tv \<le> tally (higherVote e tv)" by (simp add: higherVote_def)
  also have "\<dots> \<le> tally (fold higherVote es (higherVote e tv))" by (rule Cons.IH)
  finally show ?case by simp
qed

lemma fold_higherVote_ge:
  "e \<in> set es \<Longrightarrow> tally (snd e) \<le> tally (fold higherVote es tv)"
proof (induction es arbitrary: tv)
  case Nil
  then show ?case by simp
next
  case (Cons a es)
  show ?case
  proof (cases "e = a")
    case True
    have "tally (snd e) \<le> tally (higherVote a tv)" using True by (simp add: higherVote_def)
    also have "\<dots> \<le> tally (fold higherVote es (higherVote a tv))"
      by (rule fold_higherVote_ge_top)
    finally show ?thesis by simp
  next
    case False
    then have "e \<in> set es" using Cons.prems by simp
    then show ?thesis using Cons.IH by simp
  qed
qed

lemma iteration_order_set: "iteration_order iter \<Longrightarrow> set (iter vs) = set vs"
  unfolding iteration_order_def by (metis set_mset_mset)

lemma tallyFor_two:
  "k \<noteq> k' \<Longrightarrow> tallyFor X k cl + tallyFor X k' cl \<le> int (length cl)"
  unfolding tallyFor_def by (induction cl) auto

lemma tallyFor_pos: "c \<in> set cl \<Longrightarrow> 1 \<le> tallyFor X (ToVote X c) cl"
proof -
  assume "c \<in> set cl"
  then have "c \<in> set (filter (\<lambda>x. ToVote X x = ToVote X c) cl)" by simp
  then have "0 < length (filter (\<lambda>x. ToVote X x = ToVote X c) cl)"
    by (rule length_pos_if_in_set)
  then have "1 \<le> int (length (filter (\<lambda>x. ToVote X x = ToVote X c) cl))"
    by linarith
  then show ?thesis unfolding tallyFor_def .
qed

lemma find_key_Some:
  "c \<in> set cl \<Longrightarrow> \<exists>c'. find (\<lambda>x. ToVote X x = ToVote X c) cl = Some c'"
  by (cases "find (\<lambda>x. ToVote X x = ToVote X c) cl") (auto simp: find_None_iff)

lemma votes_entry:
  assumes "(k, v) \<in> set (fold (addVote X) cl [])"
  shows "\<exists>c. find (\<lambda>x. ToVote X x = k) cl = Some c \<and> v = \<lparr>commit = Some c, tally = tallyFor X k cl\<rparr>"
proof -
  have "distinct (map fst (fold (addVote X) cl []))"
    by (rule distinct_fold_addVote) simp
  then have "map_of (fold (addVote X) cl []) k = Some v"
    using assms by simp
  then show ?thesis
    by (simp add: map_of_fold_addVote split: option.splits)
qed

lemma votes_entry_of:
  assumes "c \<in> set cl"
  shows "\<exists>v. (ToVote X c, v) \<in> set (fold (addVote X) cl []) \<and> tally v = tallyFor X (ToVote X c) cl"
proof -
  obtain c' where "find (\<lambda>x. ToVote X x = ToVote X c) cl = Some c'"
    using find_key_Some [OF assms] by blast
  then have "map_of (fold (addVote X) cl []) (ToVote X c) =
      Some \<lparr>commit = Some c', tally = tallyFor X (ToVote X c) cl\<rparr>"
    by (simp add: map_of_fold_addVote)
  then show ?thesis by (metis map_of_SomeD vote.select_convs(2))
qed

lemma findTopVote_cases:
  "findTopVote es = \<lparr>commit = None, tally = 0\<rparr> \<or> findTopVote es \<in> snd ` set es"
  unfolding findTopVote_def by (rule fold_higherVote_mem)

lemma top_tally:
  assumes "iteration_order iter"
  shows "tally (findTopVote (iter (fold (addVote X) cl []))) = topTally X cl"
proof -
  let ?vs = "fold (addVote X) cl []"
  let ?tv = "findTopVote (iter ?vs)"
  let ?A = "insert 0 ((\<lambda>c. tallyFor X (ToVote X c) cl) ` set cl)"
  have set: "set (iter ?vs) = set ?vs" by (rule iteration_order_set [OF assms])
  have mem: "tally ?tv \<in> ?A"
  proof (cases "?tv = \<lparr>commit = None, tally = 0\<rparr>")
    case True
    then have "tally ?tv = 0" by simp
    then show ?thesis by simp
  next
    case False
    then have "?tv \<in> snd ` set ?vs" using findTopVote_cases [of "iter ?vs"] set by simp
    then obtain k where "(k, ?tv) \<in> set ?vs" by force
    from votes_entry [OF this] obtain c where
      c: "find (\<lambda>x. ToVote X x = k) cl = Some c" and t: "tally ?tv = tallyFor X k cl"
      by (metis vote.select_convs(2))
    from c have "c \<in> set cl" "ToVote X c = k" by (auto simp: find_Some_iff)
    then show ?thesis using t by auto
  qed
  have ub: "y \<le> tally ?tv" if "y \<in> ?A" for y
  proof (cases "y = 0")
    case True
    then show ?thesis
      using fold_higherVote_ge_top [of "\<lparr>commit = None, tally = 0\<rparr>" "iter ?vs"]
      by (simp add: findTopVote_def)
  next
    case False
    have "y \<in> (\<lambda>c. tallyFor X (ToVote X c) cl) ` set cl" using that False by simp
    then obtain c where c: "c \<in> set cl" "y = tallyFor X (ToVote X c) cl" by blast
    from votes_entry_of [OF c(1)] obtain v where
      v: "(ToVote X c, v) \<in> set (iter ?vs)" "tally v = y" using c(2) set by metis
    from fold_higherVote_ge [OF v(1)] show ?thesis using v(2) by (simp add: findTopVote_def)
  qed
  have "Max ?A = tally ?tv"
    by (rule Max_eqI) (use mem ub in auto)
  then show ?thesis by (simp add: topTally_def)
qed

lemma top_commit:
  assumes it: "iteration_order iter"
    and len: "int (length cl) \<le> n"
    and maj: "n div 2 + 1 \<le> topTally X cl"
  shows "\<exists>w. winner X cl (n div 2 + 1) = Some w \<and>
             commit (findTopVote (iter (fold (addVote X) cl []))) = Some w"
proof -
  let ?vs = "fold (addVote X) cl []"
  let ?tv = "findTopVote (iter ?vs)"
  let ?r = "n div 2 + 1"
  have n0: "0 \<le> n" using len by linarith
  have tt: "tally ?tv = topTally X cl" by (rule top_tally [OF it])
  have "1 \<le> ?r" using n0 by simp
  then have "tally ?tv \<noteq> 0" using tt maj by linarith
  then have "?tv \<noteq> \<lparr>commit = None, tally = 0\<rparr>" by auto
  then have "?tv \<in> snd ` set ?vs"
    using findTopVote_cases [of "iter ?vs"] iteration_order_set [OF it, of ?vs] by simp
  then obtain k where "(k, ?tv) \<in> set ?vs" by force
  from votes_entry [OF this] obtain c where
    c: "find (\<lambda>x. ToVote X x = k) cl = Some c"
    and tv: "?tv = \<lparr>commit = Some c, tally = tallyFor X k cl\<rparr>" by blast
  have tk: "?r \<le> tallyFor X k cl" using tv tt maj by (metis vote.select_convs(2))
  have "(ToVote X x = k) = (?r \<le> tallyFor X (ToVote X x) cl)" if "x \<in> set cl" for x
  proof (cases "ToVote X x = k")
    case True
    then show ?thesis using tk by simp
  next
    case False
    from tallyFor_two [OF False, of X cl] tk len
    have "tallyFor X (ToVote X x) cl + ?r \<le> n" by linarith
    then have "\<not> ?r \<le> tallyFor X (ToVote X x) cl" by linarith
    then show ?thesis using False by simp
  qed
  then have "find (\<lambda>x. ToVote X x = k) cl = find (\<lambda>x. ?r \<le> tallyFor X (ToVote X x) cl) cl"
    by (intro find_cong) auto
  then have "winner X cl ?r = Some c" using c by (simp add: winner_def)
  moreover have "commit ?tv = Some c" using tv by (metis vote.select_convs(1))
  ultimately show ?thesis by blast
qed

section \<open>The verdict in each mode\<close>

lemma sdiv_two: "0 \<le> (n::int) \<Longrightarrow> n sdiv 2 = n div 2"
  by (cases "n = 0") (simp_all add: signed_divide_int_def)

lemma process_detection:
  assumes "Committee p = Some cm" "Kind cm = KindComputeExecutor" "\<not> Discrepancy p"
  shows "ProcessCommitments X iter p didTimeout =
     (if votesSplit X p cm then (p\<lparr>Discrepancy := True\<rparr>, Inl ErrDiscrepancyDetected)
      else
        (case TransactionScheduler X cm (Round p) of
           None \<Rightarrow> (p, Inl ErrNoCommittee)
         | Some proposer \<Rightarrow>
             if ExecuteCommitments p (PublicKey proposer) = None \<and> didTimeout
             then (p, Inl ErrNoProposerCommitment)
             else detectDiscrepancy p didTimeout (countTotal p cm) (countCommits p cm)
                    (countFailures X p cm) (ExecuteCommitments p (PublicKey proposer))))"
proof -
  have "length ([] :: 'a votes) \<le> 1" by simp
  from gather_detection [OF this, of X "ExecuteCommitments p" "Members cm" 0 0 0]
  show ?thesis using assms
    by (simp add: ProcessCommitments_def votesSplit_def tallied_def countTotal_def
        countCommits_def countFailures_def Let_def split: option.splits)
qed

lemma process_resolution:
  assumes "Committee p = Some cm" "Kind cm = KindComputeExecutor" "Discrepancy p"
  shows "ProcessCommitments X iter p didTimeout =
     (case TransactionScheduler X cm (Round p) of
        None \<Rightarrow> (p, Inl ErrNoCommittee)
      | Some proposer \<Rightarrow>
          if ExecuteCommitments p (PublicKey proposer) = None \<and> didTimeout
          then (p, Inl ErrNoProposerCommitment)
          else resolveDiscrepancy X iter p didTimeout (countTotal p cm) (countCommits p cm)
                 (fold (addVote X) (voting X (tallied p cm)) [])
                 (ExecuteCommitments p (PublicKey proposer)))"
  using assms gather_resolution [of X "ExecuteCommitments p" "Members cm" 0 0 0 "[]"]
  by (simp add: ProcessCommitments_def tallied_def countTotal_def
        countCommits_def Let_def split: option.splits)

lemma voting_le_total: "int (length (voting X (tallied p cm))) \<le> countTotal p cm"
proof -
  have "length (voting X (tallied p cm)) \<le> length (tallied p cm)"
    by (simp add: voting_def)
  also have "\<dots> \<le> length (activeMembers (Discrepancy p) (Members cm))"
    unfolding tallied_def submitted_def
    by (simp add: map_filter_def)
  finally show ?thesis by (simp add: countTotal_def)
qed

lemma countTotal_nonneg: "0 \<le> countTotal p cm"
  by (simp add: countTotal_def)

text \<open>The resolution branch in terms of the highest tally and the winning commitment.\<close>

lemma resolve_spec:
  assumes it: "iteration_order iter"
  shows "resolveDiscrepancy X iter p didTimeout (countTotal p cm) (countCommits p cm)
           (fold (addVote X) (voting X (tallied p cm)) []) pc =
     (let required = countTotal p cm div 2 + 1;
          top = topTally X (voting X (tallied p cm))
      in if top + (countTotal p cm - countCommits p cm) < required
         then (p, Inl ErrInsufficientVotes)
         else if top < required \<or> pc = None
         then (if didTimeout then (p, Inl ErrInsufficientVotes) else (p, Inl ErrStillWaiting))
         else
           (case winner X (voting X (tallied p cm)) required of
              None \<Rightarrow> (p, Inl (Panic ''nil pointer dereference''))
            | Some w \<Rightarrow>
                if \<not> MostlyEqual X (the pc) w then (p, Inl ErrBadProposerCommitment)
                else (p, Inr (the pc))))"
proof -
  let ?cl = "voting X (tallied p cm)"
  let ?n = "countTotal p cm"
  have sd: "?n sdiv 2 = ?n div 2" by (rule sdiv_two [OF countTotal_nonneg])
  have tt: "tally (findTopVote (iter (fold (addVote X) ?cl []))) = topTally X ?cl"
    by (rule top_tally [OF it])
  show ?thesis
  proof (cases "?n div 2 + 1 \<le> topTally X ?cl")
    case True
    from top_commit [OF it voting_le_total True] obtain w where
      "winner X ?cl (?n div 2 + 1) = Some w"
      "commit (findTopVote (iter (fold (addVote X) ?cl []))) = Some w" by blast
    then show ?thesis using True
      by (simp add: resolveDiscrepancy_def Let_def sd tt)
  next
    case False
    then show ?thesis
      by (simp add: resolveDiscrepancy_def Let_def sd tt)
  qed
qed

lemma tallied_member:
  assumes "m \<in> set (Members cm)" "Role m = activeRole (Discrepancy p)"
    "ExecuteCommitments p (PublicKey m) = Some c"
  shows "c \<in> set (tallied p cm)"
proof -
  have "m \<in> set (activeMembers (Discrepancy p) (Members cm))"
    using assms by (simp add: activeMembers_def)
  then show ?thesis using assms(3)
    by (force simp: tallied_def submitted_def map_filter_def)
qed

lemma countCommits_le_total: "countCommits p cm \<le> countTotal p cm"
  unfolding countCommits_def countTotal_def tallied_def submitted_def
  by (simp add: map_filter_def)

lemmas sample_defs =
  samplePool_def sampleCommittee_def sampleRuntime_def sampleTEERuntime_def sampleExternals_def
  sampleScheduler_def verdict_def failure_def sampleBlock_def

lemmas count_defs =
  countTotal_def countCommits_def countFailures_def tallied_def submitted_def
  activeMembers_def activeRole_def failing_def voting_def votesSplit_def split_keys_def
  tallyFor_def topTally_def winner_def

section \<open>The claims about the tally\<close>

lemma resolution_proposer_check:
  assumes "Committee p = Some cm" and "Kind cm = KindComputeExecutor" and "Discrepancy p"
    and "TransactionScheduler X cm (Round p) = Some proposer"
    and "ExecuteCommitments p (PublicKey proposer) = Some pc"
    and "iteration_order iter"
    and "countTotal p cm div 2 + 1 \<le> topTally X (voting X (tallied p cm))"
  shows "\<exists>w. winner X (voting X (tallied p cm)) (countTotal p cm div 2 + 1) = Some w \<and>
             ProcessCommitments X iter p didTimeout =
               (if MostlyEqual X pc w then (p, Inr pc)
                else (p, Inl ErrBadProposerCommitment))"
proof -
  let ?cl = "voting X (tallied p cm)"
  let ?r = "countTotal p cm div 2 + 1"
  from top_commit [OF assms(6) voting_le_total [of X p cm]] assms(7)
  obtain w where w: "winner X ?cl ?r = Some w" by blast
  have pr: "ProcessCommitments X iter p didTimeout =
      resolveDiscrepancy X iter p didTimeout (countTotal p cm) (countCommits p cm)
        (fold (addVote X) ?cl []) (Some pc)"
    using process_resolution [OF assms(1,2,3), of X iter didTimeout] assms(4,5) by simp
  have "\<not> topTally X ?cl + (countTotal p cm - countCommits p cm) < ?r"
    using assms(7) countCommits_le_total [of p cm] by linarith
  then have "ProcessCommitments X iter p didTimeout =
      (if MostlyEqual X pc w then (p, Inr pc) else (p, Inl ErrBadProposerCommitment))"
    using assms(7) w by (simp add: pr resolve_spec [OF assms(6)] Let_def)
  then show ?thesis using w by blast
qed

lemma detection_proposer_agreement:
  assumes "Committee p = Some cm" and "Kind cm = KindComputeExecutor" and "\<not> Discrepancy p"
    and "TransactionScheduler X cm (Round p) = Some proposer"
    and "proposer \<in> set (Members cm)" and "Role proposer = RoleWorker"
    and "ExecuteCommitments p (PublicKey proposer) = Some pc"
    and "\<not> IsIndicatingFailure X pc"
    and "ProcessCommitments X iter p didTimeout = (p', Inr c)"
  shows "c = pc \<and> (\<forall>w \<in> set (voting X (tallied p cm)). ToVote X w = ToVote X pc)"
proof -
  note pd = process_detection [OF assms(1,2,3), of X iter didTimeout]
  have ns: "\<not> votesSplit X p cm"
    using pd assms(9) by (auto split: if_splits)
  have "RoleWorker = activeRole (Discrepancy p)"
    using assms(3) by (simp add: activeRole_def)
  then have "pc \<in> set (tallied p cm)"
    using tallied_member [of proposer cm p pc] assms(5,6,7) by simp
  then have pcv: "pc \<in> set (voting X (tallied p cm))"
    using assms(8) by (simp add: voting_def)
  have agree: "\<forall>w \<in> set (voting X (tallied p cm)). ToVote X w = ToVote X pc"
    using ns pcv unfolding votesSplit_def split_keys_def by blast
  have "detectDiscrepancy p didTimeout (countTotal p cm) (countCommits p cm)
      (countFailures X p cm) (Some pc) = (p', Inr c)"
    using pd ns assms(4,7,9) by simp
  then have "c = pc"
    by (auto simp: detectDiscrepancy_def Let_def split: option.splits if_splits)
  then show ?thesis using agree by simp
qed

text \<open>
  Claim C1 asks for the check of the proposer's commitment against the winning commitment
  in detection mode as in resolution mode, with \<open>ErrBadProposerCommitment\<close> when it fails.
  The resolution branch makes the check (\<open>resolution_proposer_check\<close>), and in detection
  mode a proposer whose commitment does not indicate failure agrees with every surviving
  worker commitment on the vote key (\<open>detection_proposer_agreement\<close>). The detection
  branch misses the proposer whose own commitment indicates failure. On the sample
  committee, with worker 1, the proposer, indicating failure, workers 2 and 3 agreeing, one
  allowed straggler and no timeout, the run ends in detection mode with the proposer's
  failure commitment as its result, which is not mostly equal to the commitment of worker
  2; the same commitment of the proposer against an agreeing majority of backup workers
  gives \<open>ErrBadProposerCommitment\<close> in resolution mode.
\<close>

theorem failing_proposer_accepted:
  "ProcessCommitments sampleExternals id
      (samplePool [1 \<mapsto> failure 1, 2 \<mapsto> verdict 2 10, 3 \<mapsto> verdict 3 10] False) False =
     (samplePool [1 \<mapsto> failure 1, 2 \<mapsto> verdict 2 10, 3 \<mapsto> verdict 3 10] False,
      Inr (failure 1)) \<and>
   IsIndicatingFailure sampleExternals (failure 1) \<and>
   \<not> MostlyEqual sampleExternals (failure 1) (verdict 2 10) \<and>
   ProcessCommitments sampleExternals id
      (samplePool [1 \<mapsto> failure 1, 4 \<mapsto> verdict 4 10, 5 \<mapsto> verdict 5 10] True) False =
     (samplePool [1 \<mapsto> failure 1, 4 \<mapsto> verdict 4 10, 5 \<mapsto> verdict 5 10] True,
      Inl ErrBadProposerCommitment)"
  by (simp add: ProcessCommitments_def detectDiscrepancy_def resolveDiscrepancy_def
      findTopVote_def higherVote_def addVote_def signed_divide_int_def sample_defs)

text \<open>
  Claim C2. In detection mode, with a committee of executor kind, a runtime and a proposer,
  when the workers' voting commitments do not split into two vote keys and the proposer
  has committed or \<open>didTimeout\<close> is false: more failures than \<open>AllowedStragglers\<close> set the
  discrepancy flag and give \<open>ErrDiscrepancyDetected\<close>, whatever \<open>didTimeout\<close> is; otherwise
  the result is \<open>ErrStillWaiting\<close> exactly when the commits (less the failures after a
  timeout) are fewer than required (the total, less the allowed stragglers after a timeout)
  or the proposer has not committed, and the proposer's commitment otherwise. The counts
  are those of the worker members, in the committee's list.
\<close>

theorem detection_verdict:
  assumes "Committee p = Some cm" and "Kind cm = KindComputeExecutor"
    and "Runtime p = Some rt" and "\<not> Discrepancy p"
    and "TransactionScheduler X cm (Round p) = Some proposer"
    and "\<not> votesSplit X p cm"
    and "ExecuteCommitments p (PublicKey proposer) \<noteq> None \<or> \<not> didTimeout"
  shows "ProcessCommitments X iter p didTimeout =
     (if countFailures X p cm > int (AllowedStragglers (Executor rt))
      then (p\<lparr>Discrepancy := True\<rparr>, Inl ErrDiscrepancyDetected)
      else if (if didTimeout
               then countCommits p cm - countFailures X p cm
                      < countTotal p cm - int (AllowedStragglers (Executor rt))
               else countCommits p cm < countTotal p cm)
              \<or> ExecuteCommitments p (PublicKey proposer) = None
      then (p, Inl ErrStillWaiting)
      else (p, Inr (the (ExecuteCommitments p (PublicKey proposer)))))"
  using process_detection [OF assms(1,2,4), of X iter didTimeout] assms(3,5,6,7)
  by (auto simp: detectDiscrepancy_def Let_def)

theorem detection_verdict_witness:
  "ProcessCommitments sampleExternals id
      (samplePool [1 \<mapsto> verdict 1 10, 2 \<mapsto> verdict 2 10] False) True =
     (samplePool [1 \<mapsto> verdict 1 10, 2 \<mapsto> verdict 2 10] False, Inr (verdict 1 10))"
proof -
  let ?p = "samplePool [1 \<mapsto> verdict 1 10, 2 \<mapsto> verdict 2 10] False"
  have h1: "Committee ?p = Some sampleCommittee" by (simp add: samplePool_def)
  have h2: "Kind sampleCommittee = KindComputeExecutor" by (simp add: sampleCommittee_def)
  have h3: "Runtime ?p = Some sampleRuntime" by (simp add: samplePool_def)
  have h4: "\<not> Discrepancy ?p" by (simp add: samplePool_def)
  have h5: "TransactionScheduler sampleExternals sampleCommittee (Round ?p) =
      Some \<lparr>Role = RoleWorker, PublicKey = 1\<rparr>"
    by (simp add: sample_defs)
  have h6: "\<not> votesSplit sampleExternals ?p sampleCommittee"
    by (simp add: count_defs sample_defs)
  have h7: "ExecuteCommitments ?p (PublicKey \<lparr>Role = RoleWorker, PublicKey = 1\<rparr>) \<noteq> None \<or> \<not> True"
    by (simp add: samplePool_def)
  show ?thesis
    using detection_verdict [OF h1 h2 h3 h4 h5 h6 h7, of id]
    by (simp add: count_defs sample_defs)
qed

text \<open>
  Claim C3. In resolution mode, with a committee of executor kind and a proposer, when the
  proposer has committed or \<open>didTimeout\<close> is false, and for every iteration order of the
  votes map: the total counts the backup workers, \<open>required\<close> is \<open>total div 2 + 1\<close>; when the
  highest tally plus the missing commitments is below \<open>required\<close> the result is
  \<open>ErrInsufficientVotes\<close>, also without a timeout; otherwise, when the highest tally is below
  \<open>required\<close> or the proposer has not committed, it is \<open>ErrInsufficientVotes\<close> after a
  timeout and \<open>ErrStillWaiting\<close> before.
\<close>

theorem resolution_verdict:
  assumes "Committee p = Some cm" and "Kind cm = KindComputeExecutor" and "Discrepancy p"
    and "TransactionScheduler X cm (Round p) = Some proposer"
    and "iteration_order iter"
    and "ExecuteCommitments p (PublicKey proposer) \<noteq> None \<or> \<not> didTimeout"
  shows "countTotal p cm = int (length (filter (\<lambda>n. Role n = RoleBackupWorker) (Members cm))) \<and>
     (let required = countTotal p cm div 2 + 1;
          top = topTally X (voting X (tallied p cm))
      in (top + (countTotal p cm - countCommits p cm) < required \<longrightarrow>
            ProcessCommitments X iter p didTimeout = (p, Inl ErrInsufficientVotes)) \<and>
         (\<not> top + (countTotal p cm - countCommits p cm) < required \<and>
          (top < required \<or> ExecuteCommitments p (PublicKey proposer) = None) \<longrightarrow>
            ProcessCommitments X iter p didTimeout =
              (p, Inl (if didTimeout then ErrInsufficientVotes else ErrStillWaiting))))"
proof -
  have "countTotal p cm = int (length (filter (\<lambda>n. Role n = RoleBackupWorker) (Members cm)))"
    using assms(3) by (simp add: countTotal_def activeMembers_def activeRole_def)
  moreover have "ProcessCommitments X iter p didTimeout =
      resolveDiscrepancy X iter p didTimeout (countTotal p cm) (countCommits p cm)
        (fold (addVote X) (voting X (tallied p cm)) [])
        (ExecuteCommitments p (PublicKey proposer))"
    using process_resolution [OF assms(1,2,3), of X iter didTimeout] assms(4,6) by auto
  then have "let required = countTotal p cm div 2 + 1;
          top = topTally X (voting X (tallied p cm))
      in (top + (countTotal p cm - countCommits p cm) < required \<longrightarrow>
            ProcessCommitments X iter p didTimeout = (p, Inl ErrInsufficientVotes)) \<and>
         (\<not> top + (countTotal p cm - countCommits p cm) < required \<and>
          (top < required \<or> ExecuteCommitments p (PublicKey proposer) = None) \<longrightarrow>
            ProcessCommitments X iter p didTimeout =
              (p, Inl (if didTimeout then ErrInsufficientVotes else ErrStillWaiting)))"
    by (simp add: resolve_spec [OF assms(5)] Let_def)
  ultimately show ?thesis by blast
qed

theorem resolution_verdict_witness:
  "ProcessCommitments sampleExternals id
      (samplePool [4 \<mapsto> verdict 4 10, 5 \<mapsto> verdict 5 20] True) False =
     (samplePool [4 \<mapsto> verdict 4 10, 5 \<mapsto> verdict 5 20] True, Inl ErrInsufficientVotes)"
proof -
  let ?p = "samplePool [4 \<mapsto> verdict 4 10, 5 \<mapsto> verdict 5 20] True"
  have h1: "Committee ?p = Some sampleCommittee" by (simp add: samplePool_def)
  have h2: "Kind sampleCommittee = KindComputeExecutor" by (simp add: sampleCommittee_def)
  have h3: "Discrepancy ?p" by (simp add: samplePool_def)
  have h4: "TransactionScheduler sampleExternals sampleCommittee (Round ?p) =
      Some \<lparr>Role = RoleWorker, PublicKey = 1\<rparr>"
    by (simp add: sample_defs)
  have h5: "iteration_order (id :: SampleCommitment votes \<Rightarrow> SampleCommitment votes)"
    by (simp add: iteration_order_def)
  have h6: "ExecuteCommitments ?p (PublicKey \<lparr>Role = RoleWorker, PublicKey = 1\<rparr>) \<noteq> None \<or> \<not> False"
    by simp
  show ?thesis
    using resolution_verdict [OF h1 h2 h3 h4 h5 h6]
    by (simp add: count_defs sample_defs Let_def)
qed

text \<open>
  Claim C4. In a pool with a committee of executor kind and the discrepancy flag unset, two
  workers whose commitments do not indicate failure and have different vote keys make
  \<open>ProcessCommitments\<close> set the flag and return \<open>ErrDiscrepancyDetected\<close>, for both values of
  \<open>didTimeout\<close> and whatever the other members, the proposer and the runtime are.
\<close>

theorem early_discrepancy:
  assumes "Committee p = Some cm" and "Kind cm = KindComputeExecutor" and "\<not> Discrepancy p"
    and "m1 \<in> set (Members cm)" and "Role m1 = RoleWorker"
    and "ExecuteCommitments p (PublicKey m1) = Some c1" and "\<not> IsIndicatingFailure X c1"
    and "m2 \<in> set (Members cm)" and "Role m2 = RoleWorker"
    and "ExecuteCommitments p (PublicKey m2) = Some c2" and "\<not> IsIndicatingFailure X c2"
    and "ToVote X c1 \<noteq> ToVote X c2"
  shows "ProcessCommitments X iter p didTimeout =
           (p\<lparr>Discrepancy := True\<rparr>, Inl ErrDiscrepancyDetected)"
proof -
  have r: "RoleWorker = activeRole (Discrepancy p)"
    using assms(3) by (simp add: activeRole_def)
  have "c1 \<in> set (voting X (tallied p cm))"
    using tallied_member [of m1 cm p c1] assms r by (simp add: voting_def)
  moreover have "c2 \<in> set (voting X (tallied p cm))"
    using tallied_member [of m2 cm p c2] assms r by (simp add: voting_def)
  ultimately have "votesSplit X p cm"
    using assms(12) unfolding votesSplit_def split_keys_def by blast
  then show ?thesis
    using process_detection [OF assms(1,2,3), of X iter didTimeout] by simp
qed

theorem early_discrepancy_witness:
  "ProcessCommitments sampleExternals id
      (samplePool [1 \<mapsto> verdict 1 10, 2 \<mapsto> verdict 2 20] False) True =
     (samplePool [1 \<mapsto> verdict 1 10, 2 \<mapsto> verdict 2 20] True, Inl ErrDiscrepancyDetected)"
proof -
  let ?p = "samplePool [1 \<mapsto> verdict 1 10, 2 \<mapsto> verdict 2 20] False"
  have "ProcessCommitments sampleExternals id ?p True =
      (?p\<lparr>Discrepancy := True\<rparr>, Inl ErrDiscrepancyDetected)"
    by (rule early_discrepancy [where cm = sampleCommittee
          and ?m1.0 = "\<lparr>Role = RoleWorker, PublicKey = 1\<rparr>"
          and ?m2.0 = "\<lparr>Role = RoleWorker, PublicKey = 2\<rparr>"
          and ?c1.0 = "verdict 1 10" and ?c2.0 = "verdict 2 20"])
       (simp_all add: sample_defs)
  then show ?thesis by (simp add: samplePool_def)
qed

text \<open>
  Claim C6. The pool after \<open>ProcessCommitments\<close> and its verdict do not depend on the order
  in which the votes map is iterated: two runs on the same pool with the same \<open>didTimeout\<close>
  and any two iteration orders agree. The commitments are a map read by key only: a pool
  that received the commitments of two nodes in one order and a pool that received them in
  the other order are the same pool, with the same verdict.
\<close>

theorem tally_deterministic:
  assumes "iteration_order iter1" and "iteration_order iter2"
  shows "ProcessCommitments X iter1 p didTimeout = ProcessCommitments X iter2 p didTimeout \<and>
     (a \<noteq> b \<longrightarrow>
        ProcessCommitments X iter1
          (p\<lparr>ExecuteCommitments := (ExecuteCommitments p)(a \<mapsto> x, b \<mapsto> y)\<rparr>) didTimeout =
        ProcessCommitments X iter2
          (p\<lparr>ExecuteCommitments := (ExecuteCommitments p)(b \<mapsto> y, a \<mapsto> x)\<rparr>) didTimeout)"
proof -
  have det: "ProcessCommitments X iter1 q didTimeout = ProcessCommitments X iter2 q didTimeout"
    for q :: "'a Pool"
  proof (cases "Committee q")
    case None
    then show ?thesis by (simp add: ProcessCommitments_def)
  next
    case (Some cm)
    show ?thesis
    proof (cases "Kind cm = KindComputeExecutor")
      case False
      then show ?thesis using Some by (simp add: ProcessCommitments_def)
    next
      case True
      show ?thesis
      proof (cases "Discrepancy q")
        case False
        show ?thesis
          by (simp add: process_detection [OF Some True False])
      next
        case d: True
        show ?thesis
          by (simp add: process_resolution [OF Some True d] resolve_spec [OF assms(1)]
              resolve_spec [OF assms(2)] split: option.splits)
      qed
    qed
  qed
  have "(ExecuteCommitments p)(a \<mapsto> x, b \<mapsto> y) = (ExecuteCommitments p)(b \<mapsto> y, a \<mapsto> x)"
    if "a \<noteq> b"
    using that by (simp add: fun_upd_twist)
  then show ?thesis using det by simp
qed

theorem tally_deterministic_witness:
  "ProcessCommitments sampleExternals id
      (samplePool [4 \<mapsto> verdict 4 10, 5 \<mapsto> verdict 5 20] True) False =
   ProcessCommitments sampleExternals rev
      (samplePool [4 \<mapsto> verdict 4 10, 5 \<mapsto> verdict 5 20] True) False \<and>
   ProcessCommitments sampleExternals id
      ((samplePool Map.empty True)
         \<lparr>ExecuteCommitments :=
            (ExecuteCommitments (samplePool Map.empty True))(4 \<mapsto> verdict 4 10, 5 \<mapsto> verdict 5 20)\<rparr>)
      False =
   ProcessCommitments sampleExternals rev
      ((samplePool Map.empty True)
         \<lparr>ExecuteCommitments :=
            (ExecuteCommitments (samplePool Map.empty True))(5 \<mapsto> verdict 5 20, 4 \<mapsto> verdict 4 10)\<rparr>)
      False"
proof -
  have h1: "iteration_order (id :: SampleCommitment votes \<Rightarrow> SampleCommitment votes)"
    by (simp add: iteration_order_def)
  have h2: "iteration_order (rev :: SampleCommitment votes \<Rightarrow> SampleCommitment votes)"
    by (simp add: iteration_order_def)
  have n: "(4 :: PublicKey) \<noteq> 5" by simp
  show ?thesis
    using tally_deterministic [OF h1 h2, of sampleExternals
        "samplePool [4 \<mapsto> verdict 4 10, 5 \<mapsto> verdict 5 20] True" False]
      tally_deterministic [OF h1 h2, of sampleExternals "samplePool Map.empty True" False
        4 5 "verdict 4 10" "verdict 5 20"] n
    by blast
qed

section \<open>Finalization\<close>

lemma detect_pool:
  "detectDiscrepancy p dt n c f pc = (p', r) \<Longrightarrow>
     p' = p \<and> r \<noteq> Inl ErrDiscrepancyDetected \<or> p' = p\<lparr>Discrepancy := True\<rparr> \<and> r = Inl ErrDiscrepancyDetected"
  by (auto simp: detectDiscrepancy_def Let_def split: option.splits if_splits)

lemma resolve_pool:
  "resolveDiscrepancy X iter p dt n c vs pc = (p', r) \<Longrightarrow> p' = p \<and> r \<noteq> Inl ErrDiscrepancyDetected"
  by (auto simp: resolveDiscrepancy_def Let_def split: option.splits if_splits)

lemma process_pool:
  assumes "ProcessCommitments X iter p dt = (p', r)"
  shows "p' = p \<and> r \<noteq> Inl ErrDiscrepancyDetected \<or>
         p' = p\<lparr>Discrepancy := True\<rparr> \<and> r = Inl ErrDiscrepancyDetected"
proof (cases "Committee p")
  case None
  then show ?thesis using assms by (auto simp: ProcessCommitments_def)
next
  case (Some cm)
  show ?thesis
  proof (cases "Kind cm = KindComputeExecutor")
    case False
    then show ?thesis using assms Some by (auto simp: ProcessCommitments_def)
  next
    case True
    show ?thesis
    proof (cases "gatherVotes X (Discrepancy p) (ExecuteCommitments p) (Members cm) (0, 0, 0, [])")
      case None
      then show ?thesis using assms Some True by (auto simp: ProcessCommitments_def)
    next
      case g: (Some acc)
      obtain n c f vs where acc: "acc = (n, c, f, vs)" by (cases acc) auto
      show ?thesis
      proof (cases "TransactionScheduler X cm (Round p)")
        case None
        then show ?thesis using assms Some True g acc by (auto simp: ProcessCommitments_def)
      next
        case s: (Some proposer)
        let ?pc = "ExecuteCommitments p (PublicKey proposer)"
        show ?thesis
        proof (cases "?pc = None \<and> dt")
          case True
          then show ?thesis using assms Some \<open>Kind cm = KindComputeExecutor\<close> g acc s
            by (auto simp: ProcessCommitments_def Let_def)
        next
          case np: False
          show ?thesis
          proof (cases "Discrepancy p")
            case False
            then have "detectDiscrepancy p dt n c f ?pc = (p', r)"
              using assms Some \<open>Kind cm = KindComputeExecutor\<close> g acc s np
              by (auto simp: ProcessCommitments_def Let_def)
            then show ?thesis by (rule detect_pool)
          next
            case True
            then have "resolveDiscrepancy X iter p dt n c vs ?pc = (p', r)"
              using assms Some \<open>Kind cm = KindComputeExecutor\<close> g acc s np
              by (auto simp: ProcessCommitments_def Let_def)
            then show ?thesis using resolve_pool by blast
          qed
        qed
      qed
    qed
  qed
qed

lemma int64_div_exact:
  assumes "0 \<le> sint (r :: 64 word)" and "15 * sint r < 2 ^ 63"
  shows "sint (int64_div (15 * r) 10) = 15 * sint r div 10"
proof -
  let ?k = "15 * sint r"
  have "signed_take_bit 63 ?k = ?k"
    using assms by (intro signed_take_bit_int_eq_self) simp_all
  then have m: "sint (15 * r) = ?k"
    by (simp add: sint_word_ariths)
  have q: "?k sdiv 10 = ?k div 10"
    using assms(1) by (cases "sint r = 0") (simp_all add: signed_divide_int_def sgn_if)
  have "0 \<le> ?k div 10" using assms(1) by simp
  moreover have "\<And>k::int. 0 \<le> k \<Longrightarrow> k div 10 \<le> k" by presburger
  then have "?k div 10 \<le> ?k" using assms(1) by simp
  ultimately have "signed_take_bit 63 (?k div 10) = ?k div 10"
    using assms(2) by (intro signed_take_bit_int_eq_self) linarith+
  then have w: "sint (word_of_int (?k div 10) :: 64 word) = ?k div 10"
    by (simp only: sint_sbintrunc') simp
  have "sint (10 :: 64 word) = 10" by simp
  then have "int64_div (15 * r) 10 = word_of_int (?k sdiv 10)"
    by (simp only: int64_div_def m)
  then show ?thesis
    by (simp only: q w)
qed

text \<open>
  Claim C5. When \<open>ProcessCommitments\<close> answers \<open>ErrStillWaiting\<close> and \<open>didTimeout\<close> is true,
  \<open>TryFinalize\<close> returns \<open>ErrDiscrepancyDetected\<close>; with an authoritative timeout it also sets
  the discrepancy flag and arms \<open>NextTimeout\<close> to \<open>height + (15 * roundTimeout) / 10\<close>, in Go's
  64-bit arithmetic (the last conjunct: for a round timeout from 0 on whose multiple by 15
  fits 64 bits, the quotient is the integer quotient); without it the flag is the one before
  the call. On every exit, a panic of \<open>ProcessCommitments\<close> included, \<open>NextTimeout\<close> is
  \<open>TimeoutNever\<close>, \<open>height + roundTimeout\<close> or \<open>height\<close> plus the stretched timeout; it is
  \<open>TimeoutNever\<close> after a success and after any error other than \<open>ErrStillWaiting\<close> and
  \<open>ErrDiscrepancyDetected\<close>.
\<close>

theorem finalize_timeout:
  "(snd (ProcessCommitments X iter p didTimeout) = Inl ErrStillWaiting \<and> didTimeout \<longrightarrow>
      snd (TryFinalize X iter p height roundTimeout didTimeout isTimeoutAuthoritative)
        = Inl ErrDiscrepancyDetected \<and>
      (isTimeoutAuthoritative \<longrightarrow>
         Discrepancy
           (fst (TryFinalize X iter p height roundTimeout didTimeout isTimeoutAuthoritative)) \<and>
         NextTimeout
           (fst (TryFinalize X iter p height roundTimeout didTimeout isTimeoutAuthoritative)) =
           height + int64_div (15 * roundTimeout) 10) \<and>
      (\<not> isTimeoutAuthoritative \<longrightarrow>
         Discrepancy
           (fst (TryFinalize X iter p height roundTimeout didTimeout isTimeoutAuthoritative)) =
           Discrepancy p)) \<and>
   (NextTimeout (fst (TryFinalize X iter p height roundTimeout didTimeout isTimeoutAuthoritative))
      \<in> {TimeoutNever, height + roundTimeout, height + int64_div (15 * roundTimeout) 10}) \<and>
   ((\<exists>c. snd (ProcessCommitments X iter p didTimeout) = Inr c) \<longrightarrow>
      NextTimeout (fst (TryFinalize X iter p height roundTimeout didTimeout isTimeoutAuthoritative))
        = TimeoutNever) \<and>
   ((\<exists>e. snd (ProcessCommitments X iter p didTimeout) = Inl e \<and> e \<noteq> ErrStillWaiting \<and>
         e \<noteq> ErrDiscrepancyDetected) \<longrightarrow>
      NextTimeout (fst (TryFinalize X iter p height roundTimeout didTimeout isTimeoutAuthoritative))
        = TimeoutNever) \<and>
   (0 \<le> sint roundTimeout \<and> 15 * sint roundTimeout < 2 ^ 63 \<longrightarrow>
      sint (int64_div (15 * roundTimeout) 10) = 15 * sint roundTimeout div 10)"
proof -
  obtain p1 res where pc: "ProcessCommitments X iter p didTimeout = (p1, res)"
    by (cases "ProcessCommitments X iter p didTimeout") auto
  from process_pool [OF pc] have unchanged: "res = Inl ErrStillWaiting \<Longrightarrow> p1 = p"
    by auto
  have ex: "0 \<le> sint roundTimeout \<and> 15 * sint roundTimeout < 2 ^ 63 \<longrightarrow>
      sint (int64_div (15 * roundTimeout) 10) = 15 * sint roundTimeout div 10"
    using int64_div_exact [of roundTimeout] by blast
  have tf: "TryFinalize X iter p height roundTimeout didTimeout isTimeoutAuthoritative =
      (case tryFinalizeSwitch p1 res roundTimeout didTimeout isTimeoutAuthoritative of
         (p2, rearmTimer, roundTimeout', out) \<Rightarrow>
           (if rearmTimer then p2\<lparr>NextTimeout := height + roundTimeout'\<rparr>
            else p2\<lparr>NextTimeout := TimeoutNever\<rparr>, out))"
    by (simp add: TryFinalize_def pc)
  have sw: "tryFinalizeSwitch p1 res roundTimeout didTimeout isTimeoutAuthoritative =
      (case res of
         Inr c \<Rightarrow> (p1, False, roundTimeout, Inr c)
       | Inl err \<Rightarrow>
          if err = ErrStillWaiting then
            (if didTimeout then
               (if isTimeoutAuthoritative
                then (p1\<lparr>Discrepancy := True\<rparr>, True, int64_div (15 * roundTimeout) 10,
                      Inl ErrDiscrepancyDetected)
                else (p1, False, roundTimeout, Inl ErrDiscrepancyDetected))
             else (p1, True, roundTimeout, Inl err))
          else if err = ErrDiscrepancyDetected then (p1, True, roundTimeout, Inl err)
          else (p1, False, roundTimeout, Inl err))"
    by (simp add: tryFinalizeSwitch_def backupWorkerTimeoutFactorNumerator_def
        backupWorkerTimeoutFactorDenominator_def split: sum.splits)
  show ?thesis
  proof (cases res)
    case (Inr c)
    then show ?thesis unfolding tf sw pc using ex by simp
  next
    case (Inl e)
    show ?thesis
    proof (cases "e = ErrStillWaiting")
      case True
      then have "p1 = p" using unchanged Inl by simp
      then show ?thesis unfolding tf sw pc using Inl True ex by simp
    next
      case False
      then show ?thesis unfolding tf sw pc using Inl ex by simp
    qed
  qed
qed

theorem finalize_timeout_witness:
  "snd (TryFinalize sampleExternals id (samplePool [1 \<mapsto> verdict 1 10] False) 100 5 True True)
     = Inl ErrDiscrepancyDetected \<and>
   Discrepancy
     (fst (TryFinalize sampleExternals id (samplePool [1 \<mapsto> verdict 1 10] False) 100 5 True True)) \<and>
   NextTimeout
     (fst (TryFinalize sampleExternals id (samplePool [1 \<mapsto> verdict 1 10] False) 100 5 True True))
     = 107"
proof -
  let ?p = "samplePool [1 \<mapsto> verdict 1 10] False"
  have h: "snd (ProcessCommitments sampleExternals id ?p True) = Inl ErrStillWaiting \<and> True"
    by (simp add: ProcessCommitments_def detectDiscrepancy_def addVote_def sample_defs)
  have d: "int64_div (15 * 5) 10 = 7"
    by (simp add: int64_div_def signed_divide_int_def)
  show ?thesis
    using finalize_timeout [of sampleExternals id ?p True 100 5 True] h d
    by simp
qed

section \<open>The cached member sets\<close>

lemma isMember_valid:
  assumes "caches_valid p" "Committee p = Some cm"
  shows "isMember p pk =
    (if memberSet p = {} then computeMemberSets p else p, pk \<in> committeeKeys p)"
  using assms
  by (auto simp: isMember_def caches_valid_def committeeKeys_def computeMemberSets_def Let_def)

lemma isWorker_valid:
  assumes "caches_valid p" "Committee p = Some cm"
  shows "isWorker p pk =
    (if workerSet p = {} then computeMemberSets p else p, pk \<in> workerKeys p)"
  using assms
  by (auto simp: isWorker_def caches_valid_def workerKeys_def computeMemberSets_def Let_def)

lemma computeMemberSets_fields:
  "Committee (computeMemberSets p) = Committee p"
  "Runtime (computeMemberSets p) = Runtime p"
  "Round (computeMemberSets p) = Round p"
  "ExecuteCommitments (computeMemberSets p) = ExecuteCommitments p"
  "Discrepancy (computeMemberSets p) = Discrepancy p"
  "NextTimeout (computeMemberSets p) = NextTimeout p"
  by (simp_all add: computeMemberSets_def split: option.splits)

lemma computeMemberSets_valid:
  "Committee p = Some cm \<Longrightarrow> caches_valid (computeMemberSets p)"
  by (simp add: caches_valid_def computeMemberSets_def committeeKeys_def workerKeys_def)

lemma isScheduler_computeMemberSets:
  "isScheduler X (computeMemberSets p) pk = isScheduler X p pk"
  by (simp add: isScheduler_def computeMemberSets_fields cong: option.case_cong)

section \<open>The proposer timeout check\<close>

text \<open>
  Claim C9. For a pool whose caches are empty or hold the committee's keys,
  \<open>CheckProposerTimeout\<close> answers with the first check that fails, in this order: no
  committee, a committee that is not of executor kind, a round other than the block's, a
  commitment in the pool, a requester that no member entry with the worker role carries (a
  backup worker among them), a requester that is the proposer; and with no error when none
  fails. The proposer is the one the scheduler gives for the pool's own round \<open>p.Round\<close>,
  which \<open>isScheduler\<close> reads.
\<close>

theorem proposer_timeout_checks:
  assumes "caches_valid p"
  shows "snd (CheckProposerTimeout X p blk nl pk r) =
     (case Committee p of
        None \<Rightarrow> Some ErrNoCommittee
      | Some cm \<Rightarrow>
          if Kind cm \<noteq> KindComputeExecutor then Some ErrInvalidCommitteeKind
          else if r \<noteq> HeaderRound blk then Some ErrTimeoutNotCorrectRound
          else if ExecuteCommitments p \<noteq> Map.empty then Some ErrAlreadyCommitted
          else if \<not> (\<exists>m \<in> set (Members cm). Role m = RoleWorker \<and> PublicKey m = pk)
          then Some ErrNotInCommittee
          else if (\<exists>s. TransactionScheduler X cm (Round p) = Some s \<and> PublicKey s = pk)
          then Some ErrNodeIsScheduler
          else None) \<and>
     (snd (CheckProposerTimeout X p blk nl pk r) = None) =
       (\<exists>cm. Committee p = Some cm \<and> Kind cm = KindComputeExecutor \<and> r = HeaderRound blk \<and>
          ExecuteCommitments p = Map.empty \<and>
          (\<exists>m \<in> set (Members cm). Role m = RoleWorker \<and> PublicKey m = pk) \<and>
          \<not> (\<exists>s. TransactionScheduler X cm (Round p) = Some s \<and> PublicKey s = pk))"
proof (cases "Committee p")
  case None
  then show ?thesis by (simp add: CheckProposerTimeout_def)
next
  case (Some cm)
  define W where "W = (\<exists>m \<in> set (Members cm). Role m = RoleWorker \<and> PublicKey m = pk)"
  define S where "S = (\<exists>s. TransactionScheduler X cm (Round p) = Some s \<and> PublicKey s = pk)"
  define q where "q = (if workerSet p = {} then computeMemberSets p else p)"
  have "(pk \<in> workerKeys p) = W"
    using Some by (auto simp: workerKeys_def W_def)
  then have iw: "isWorker p pk = (q, W)"
    by (simp add: isWorker_valid [OF assms Some] q_def)
  have "isScheduler X q pk = isScheduler X p pk"
    by (simp add: isScheduler_computeMemberSets q_def)
  also have "\<dots> = S"
    using Some by (simp add: isScheduler_def S_def split: option.splits)
  finally have sc: "isScheduler X q pk = S" .
  have "snd (CheckProposerTimeout X p blk nl pk r) =
      (if Kind cm \<noteq> KindComputeExecutor then Some ErrInvalidCommitteeKind
       else if r \<noteq> HeaderRound blk then Some ErrTimeoutNotCorrectRound
       else if ExecuteCommitments p \<noteq> Map.empty then Some ErrAlreadyCommitted
       else if \<not> W then Some ErrNotInCommittee
       else if S then Some ErrNodeIsScheduler
       else None)"
    by (simp add: CheckProposerTimeout_def Some iw sc)
  then have "snd (CheckProposerTimeout X p blk nl pk r) =
      (if Kind cm \<noteq> KindComputeExecutor then Some ErrInvalidCommitteeKind
       else if r \<noteq> HeaderRound blk then Some ErrTimeoutNotCorrectRound
       else if ExecuteCommitments p \<noteq> Map.empty then Some ErrAlreadyCommitted
       else if \<not> W then Some ErrNotInCommittee
       else if S then Some ErrNodeIsScheduler
       else None) \<and>
     (snd (CheckProposerTimeout X p blk nl pk r) = None) =
       (Kind cm = KindComputeExecutor \<and> r = HeaderRound blk \<and>
          ExecuteCommitments p = Map.empty \<and> W \<and> \<not> S)"
    by simp
  then show ?thesis
    unfolding W_def S_def by (simp add: Some)
qed

theorem proposer_timeout_checks_witness:
  "snd (CheckProposerTimeout sampleExternals (samplePool Map.empty False) sampleBlock
          (\<lambda>n. None) 2 0) = None \<and>
   snd (CheckProposerTimeout sampleExternals (samplePool Map.empty False) sampleBlock
          (\<lambda>n. None) 1 0) = Some ErrNodeIsScheduler \<and>
   snd (CheckProposerTimeout sampleExternals (samplePool Map.empty False) sampleBlock
          (\<lambda>n. None) 4 0) = Some ErrNotInCommittee \<and>
   snd (CheckProposerTimeout sampleExternals (samplePool [3 \<mapsto> verdict 3 10] False) sampleBlock
          (\<lambda>n. None) 2 0) = Some ErrAlreadyCommitted"
proof -
  have v: "caches_valid (samplePool cs d)" for cs d
    by (simp add: caches_valid_def samplePool_def)
  show ?thesis
    using proposer_timeout_checks [OF v, of sampleExternals Map.empty False sampleBlock "\<lambda>n. None" 2 0]
      proposer_timeout_checks [OF v, of sampleExternals Map.empty False sampleBlock "\<lambda>n. None" 1 0]
      proposer_timeout_checks [OF v, of sampleExternals Map.empty False sampleBlock "\<lambda>n. None" 4 0]
      proposer_timeout_checks [OF v, of sampleExternals "[3 \<mapsto> verdict 3 10]" False sampleBlock
        "\<lambda>n. None" 2 0]
    by (simp add: sample_defs)
qed

section \<open>Admission of failure-indicating commitments\<close>

lemma addVerified_failure:
  assumes "IsIndicatingFailure X c"
  shows "\<exists>q r. addVerifiedExecutorCommitment X p blk nl mv c = (q, r, []) \<and>
     (\<forall>e. r = Some e \<longrightarrow>
        e \<in> {ErrNoRuntime, ErrNoCommittee, ErrInvalidCommitteeKind, ErrNotInCommittee,
             ErrAlreadyCommitted, ErrInvalidRound, ErrNotBasedOnCorrectBlock,
             ErrBadExecutorCommitment})"
proof -
  obtain p1 m where im: "isMember p (NodeID X c) = (p1, m)"
    by (cases "isMember p (NodeID X c)") auto
  show ?thesis
    using assms
    by (simp add: addVerifiedExecutorCommitment_def im checkCommitment_def
        split: option.splits)
qed

lemma add_failure:
  assumes "IsIndicatingFailure X c"
  shows "\<exists>q r. AddExecutorCommitment X p blk nl c mv = (q, r, []) \<and>
     (\<forall>e. r = Some e \<longrightarrow>
        e \<in> {ErrNoRuntime, ErrNoCommittee, ErrInvalidCommitteeKind, ErrNotInCommittee,
             ErrAlreadyCommitted, ErrInvalidRound, ErrNotBasedOnCorrectBlock,
             ErrBadExecutorCommitment} \<or> (\<exists>m. e = ErrPermanent m))"
proof (cases "Runtime p")
  case None
  then show ?thesis by (simp add: AddExecutorCommitment_def)
next
  case (Some rt)
  show ?thesis
  proof (cases "Verify X c (ID rt)")
    case v: (Some m)
    then show ?thesis using Some by (simp add: AddExecutorCommitment_def)
  next
    case None
    then have "AddExecutorCommitment X p blk nl c mv =
        addVerifiedExecutorCommitment X p blk nl mv c"
      using Some by (simp add: AddExecutorCommitment_def)
    then show ?thesis
      using addVerified_failure [OF assms, of p blk nl mv] by auto
  qed
qed

text \<open>
  Claim C10. A failure-indicating commitment that passes the checks before
  \<open>switch commit.IsIndicatingFailure()\<close> (committee, kind, membership, no earlier commitment
  of the node, runtime, round, parent block, \<open>ValidateBasic\<close>) is stored by
  \<open>addVerifiedExecutorCommitment\<close> with no error and no call to the node lookup or to the
  message validator, whatever the runtime's TEE hardware, the commitment's messages and
  the proposer are; and by \<open>AddExecutorCommitment\<close> too, once its signature check passes.
  And whether or not it passes those checks, no failure-indicating commitment makes the
  pool call an adapter, and the only errors it can meet are those of the checks before the
  switch (and of the signature check): never the one of the messages rule, of the
  attestation or of the validator.
\<close>

theorem failure_commitment_admitted:
  assumes "IsIndicatingFailure X c"
  shows
    "(Committee p = Some cm \<and> Kind cm = KindComputeExecutor \<and> caches_valid p \<and>
      NodeID X c \<in> committeeKeys p \<and> ExecuteCommitments p (NodeID X c) = None \<and>
      Runtime p = Some rt \<and> Round p = HeaderRound blk \<and> IsParentOf X c blk \<and>
      ValidateBasic X c \<longrightarrow>
        addVerifiedExecutorCommitment X p blk nl mv c =
          ((if memberSet p = {} then computeMemberSets p else p)
             \<lparr>ExecuteCommitments := (ExecuteCommitments p)(NodeID X c \<mapsto> c)\<rparr>, None, []) \<and>
        (Verify X c (ID rt) = None \<longrightarrow>
           AddExecutorCommitment X p blk nl c mv =
             ((if memberSet p = {} then computeMemberSets p else p)
                \<lparr>ExecuteCommitments := (ExecuteCommitments p)(NodeID X c \<mapsto> c)\<rparr>, None, []))) \<and>
     snd (snd (addVerifiedExecutorCommitment X p blk nl mv c)) = [] \<and>
     snd (snd (AddExecutorCommitment X p blk nl c mv)) = [] \<and>
     (\<forall>e. fst (snd (AddExecutorCommitment X p blk nl c mv)) = Some e \<longrightarrow>
        e \<in> {ErrNoRuntime, ErrNoCommittee, ErrInvalidCommitteeKind, ErrNotInCommittee,
             ErrAlreadyCommitted, ErrInvalidRound, ErrNotBasedOnCorrectBlock,
             ErrBadExecutorCommitment} \<or> (\<exists>m. e = ErrPermanent m))"
proof -
  have a: "addVerifiedExecutorCommitment X p blk nl mv c =
          ((if memberSet p = {} then computeMemberSets p else p)
             \<lparr>ExecuteCommitments := (ExecuteCommitments p)(NodeID X c \<mapsto> c)\<rparr>, None, []) \<and>
        (Verify X c (ID rt) = None \<longrightarrow>
           AddExecutorCommitment X p blk nl c mv =
             ((if memberSet p = {} then computeMemberSets p else p)
                \<lparr>ExecuteCommitments := (ExecuteCommitments p)(NodeID X c \<mapsto> c)\<rparr>, None, []))"
    if h: "Committee p = Some cm" "Kind cm = KindComputeExecutor" "caches_valid p"
      "NodeID X c \<in> committeeKeys p" "ExecuteCommitments p (NodeID X c) = None"
      "Runtime p = Some rt" "Round p = HeaderRound blk" "IsParentOf X c blk"
      "ValidateBasic X c"
  proof -
    have "addVerifiedExecutorCommitment X p blk nl mv c =
           ((if memberSet p = {} then computeMemberSets p else p)
              \<lparr>ExecuteCommitments := (ExecuteCommitments p)(NodeID X c \<mapsto> c)\<rparr>, None, [])"
      using assms h
      by (simp add: addVerifiedExecutorCommitment_def isMember_valid [OF h(3,1)]
          checkCommitment_def computeMemberSets_fields)
    then show ?thesis
      using h(6) by (simp add: AddExecutorCommitment_def)
  qed
  have b: "snd (snd (addVerifiedExecutorCommitment X p blk nl mv c)) = []"
    using addVerified_failure [OF assms, of p blk nl mv] by auto
  from add_failure [OF assms, of p blk nl mv]
  have c: "snd (snd (AddExecutorCommitment X p blk nl c mv)) = [] \<and>
     (\<forall>e. fst (snd (AddExecutorCommitment X p blk nl c mv)) = Some e \<longrightarrow>
        e \<in> {ErrNoRuntime, ErrNoCommittee, ErrInvalidCommitteeKind, ErrNotInCommittee,
             ErrAlreadyCommitted, ErrInvalidRound, ErrNotBasedOnCorrectBlock,
             ErrBadExecutorCommitment} \<or> (\<exists>m. e = ErrPermanent m))"
    by auto
  show ?thesis using a b c by blast
qed

text \<open>
  The runtime requires trusted execution, the node lookup fails and every attestation
  check would fail: the failure-indicating commitment of worker 2 is stored all the same,
  with no call to an adapter. The same commitment carrying two messages does not pass
  \<open>ValidateBasic\<close>: it is refused there, not by the messages rule.
\<close>

theorem failure_commitment_admitted_witness:
  "AddExecutorCommitment sampleExternals
      ((samplePool Map.empty False)\<lparr>Runtime := Some sampleTEERuntime\<rparr>) sampleBlock
      (\<lambda>n. None) (failure 2) (Some (\<lambda>ms. Some ''rejected'')) =
     ((samplePool [2 \<mapsto> failure 2] False)
        \<lparr>Runtime := Some sampleTEERuntime, memberSet := {1, 2, 3, 4, 5},
         workerSet := {1, 2, 3}\<rparr>, None, []) \<and>
   snd (AddExecutorCommitment sampleExternals
      ((samplePool Map.empty False)\<lparr>Runtime := Some sampleTEERuntime\<rparr>) sampleBlock
      (\<lambda>n. None)
      (\<lparr>sNode = 2, sFailure = True, sVote = 0, sMessages = [8, 9], sMessagesHash = 0\<rparr>)
      (Some (\<lambda>ms. Some ''rejected''))) = (Some ErrBadExecutorCommitment, [])"
proof -
  let ?c = "failure 2"
  let ?p = "(samplePool Map.empty False)\<lparr>Runtime := Some sampleTEERuntime\<rparr>"
  have h1: "IsIndicatingFailure sampleExternals ?c" by (simp add: sample_defs)
  have h: "Committee ?p = Some sampleCommittee \<and> Kind sampleCommittee = KindComputeExecutor \<and>
      caches_valid ?p \<and> NodeID sampleExternals ?c \<in> committeeKeys ?p \<and>
      ExecuteCommitments ?p (NodeID sampleExternals ?c) = None \<and>
      Runtime ?p = Some sampleTEERuntime \<and> Round ?p = HeaderRound sampleBlock \<and>
      IsParentOf sampleExternals ?c sampleBlock \<and> ValidateBasic sampleExternals ?c"
    by (simp add: caches_valid_def committeeKeys_def sample_defs)
  have h11: "Verify sampleExternals ?c (ID sampleTEERuntime) = None"
    by (simp add: sampleExternals_def)
  have tee: "TEEHardware sampleTEERuntime \<noteq> TEEHardwareInvalid"
    by (simp add: sampleTEERuntime_def)
  have first: "AddExecutorCommitment sampleExternals ?p sampleBlock (\<lambda>n. None) ?c
      (Some (\<lambda>ms. Some ''rejected'')) =
     ((if memberSet ?p = {} then computeMemberSets ?p else ?p)
        \<lparr>ExecuteCommitments := (ExecuteCommitments ?p)(NodeID sampleExternals ?c \<mapsto> ?c)\<rparr>,
      None, [])"
    using failure_commitment_admitted [OF h1, of ?p sampleCommittee sampleTEERuntime sampleBlock
        "\<lambda>n. None" "Some (\<lambda>ms. Some ''rejected'')"] h h11
    by blast
  have second: "snd (AddExecutorCommitment sampleExternals ?p sampleBlock (\<lambda>n. None)
      (\<lparr>sNode = 2, sFailure = True, sVote = 0, sMessages = [8, 9], sMessagesHash = 0\<rparr>)
      (Some (\<lambda>ms. Some ''rejected''))) = (Some ErrBadExecutorCommitment, [])"
    by (simp add: AddExecutorCommitment_def addVerifiedExecutorCommitment_def isMember_def
        computeMemberSets_def sample_defs)
  show ?thesis
    unfolding first second
    by (simp add: computeMemberSets_def sample_defs insert_commute)
qed

section \<open>What the operations change\<close>

lemma checkCommitment_cases:
  obtains e calls where "checkCommitment X p rt cm nl mv c = (Some e, calls)"
  | calls where "checkCommitment X p rt cm nl mv c = (None, calls)"
  by (cases "checkCommitment X p rt cm nl mv c") (metis option.exhaust)

lemma addVerified_shape:
  assumes "caches_valid p" and "Committee p = Some cm"
  defines "q \<equiv> (if memberSet p = {} then computeMemberSets p else p)"
  shows "(\<exists>e calls. addVerifiedExecutorCommitment X p blk nl mv c = (p, Some e, calls)) \<or>
         (\<exists>e calls. addVerifiedExecutorCommitment X p blk nl mv c = (q, Some e, calls)) \<or>
         (NodeID X c \<in> committeeKeys p \<and> ExecuteCommitments p (NodeID X c) = None \<and>
          (\<exists>calls. addVerifiedExecutorCommitment X p blk nl mv c =
             (q\<lparr>ExecuteCommitments := (ExecuteCommitments p)(NodeID X c \<mapsto> c)\<rparr>, None, calls)))"
proof -
  have im: "isMember p (NodeID X c) = (q, NodeID X c \<in> committeeKeys p)"
    by (simp add: isMember_valid [OF assms(1,2)] q_def)
  have qf: "ExecuteCommitments q = ExecuteCommitments p" "Runtime q = Runtime p"
    "Round q = Round p"
    by (simp_all add: q_def computeMemberSets_fields)
  show ?thesis
  proof (cases "Runtime p")
    case None
    then show ?thesis
      by (simp add: addVerifiedExecutorCommitment_def assms(2) im qf)
  next
    case (Some rt)
    show ?thesis
    proof (cases rule: checkCommitment_cases [of X q rt cm nl mv c])
      case (1 e calls)
      then show ?thesis
        by (simp add: addVerifiedExecutorCommitment_def assms(2) im qf Some)
    next
      case (2 calls)
      then show ?thesis
        by (simp add: addVerifiedExecutorCommitment_def assms(2) im qf Some)
    qed
  qed
qed

lemma add_shape:
  assumes "caches_valid p"
  defines "q \<equiv> (if memberSet p = {} then computeMemberSets p else p)"
  shows "(\<exists>e calls. AddExecutorCommitment X p blk nl c mv = (p, Some e, calls)) \<or>
         (\<exists>e calls. AddExecutorCommitment X p blk nl c mv = (q, Some e, calls)) \<or>
         (NodeID X c \<in> committeeKeys p \<and> ExecuteCommitments p (NodeID X c) = None \<and>
          (\<exists>calls. AddExecutorCommitment X p blk nl c mv =
             (q\<lparr>ExecuteCommitments := (ExecuteCommitments p)(NodeID X c \<mapsto> c)\<rparr>, None, calls)))"
proof (cases "Runtime p")
  case None
  then show ?thesis by (simp add: AddExecutorCommitment_def)
next
  case (Some rt)
  show ?thesis
  proof (cases "Verify X c (ID rt)")
    case v: (Some e)
    then show ?thesis using Some by (simp add: AddExecutorCommitment_def)
  next
    case None
    then have eq: "AddExecutorCommitment X p blk nl c mv =
        addVerifiedExecutorCommitment X p blk nl mv c"
      using Some by (simp add: AddExecutorCommitment_def)
    show ?thesis
    proof (cases "Committee p")
      case None
      then show ?thesis by (simp add: eq addVerifiedExecutorCommitment_def)
    next
      case (Some cm)
      from addVerified_shape [OF assms(1) Some, of X blk nl mv c]
      show ?thesis by (simp add: eq q_def)
    qed
  qed
qed

lemma filled_caches:
  assumes "caches_valid p" and "q = (if memberSet p = {} then computeMemberSets p else p)"
  shows "Committee q = Committee p" "Discrepancy q = Discrepancy p"
    "ExecuteCommitments q = ExecuteCommitments p" "caches_valid q"
proof -
  show "Committee q = Committee p" "Discrepancy q = Discrepancy p"
    "ExecuteCommitments q = ExecuteCommitments p"
    by (simp_all add: assms(2) computeMemberSets_fields)
  show "caches_valid q"
  proof (cases "Committee p")
    case None
    then show ?thesis using assms by (simp add: computeMemberSets_def)
  next
    case (Some cm)
    then show ?thesis using assms computeMemberSets_valid [OF Some] by simp
  qed
qed

lemma filled_worker_caches:
  assumes "caches_valid p" and "q = (if workerSet p = {} then computeMemberSets p else p)"
  shows "Committee q = Committee p" "Discrepancy q = Discrepancy p"
    "ExecuteCommitments q = ExecuteCommitments p" "caches_valid q"
proof -
  show "Committee q = Committee p" "Discrepancy q = Discrepancy p"
    "ExecuteCommitments q = ExecuteCommitments p"
    by (simp_all add: assms(2) computeMemberSets_fields)
  show "caches_valid q"
  proof (cases "Committee p")
    case None
    then show ?thesis using assms by (simp add: computeMemberSets_def)
  next
    case (Some cm)
    then show ?thesis using assms computeMemberSets_valid [OF Some] by simp
  qed
qed

lemma caches_valid_cong:
  "Committee q = Committee p \<Longrightarrow> memberSet q = memberSet p \<Longrightarrow> workerSet q = workerSet p \<Longrightarrow>
   caches_valid q = caches_valid p"
  by (simp add: caches_valid_def committeeKeys_def workerKeys_def)

lemma committeeKeys_cong: "Committee q = Committee p \<Longrightarrow> committeeKeys q = committeeKeys p"
  by (simp add: committeeKeys_def)

lemma add_effect:
  assumes "caches_valid p"
  shows "Committee (fst (AddExecutorCommitment X p blk nl c mv)) = Committee p \<and>
         Discrepancy (fst (AddExecutorCommitment X p blk nl c mv)) = Discrepancy p \<and>
         caches_valid (fst (AddExecutorCommitment X p blk nl c mv)) \<and>
         (ExecuteCommitments (fst (AddExecutorCommitment X p blk nl c mv)) = ExecuteCommitments p \<or>
          NodeID X c \<in> committeeKeys p \<and> ExecuteCommitments p (NodeID X c) = None \<and>
          ExecuteCommitments (fst (AddExecutorCommitment X p blk nl c mv)) =
            (ExecuteCommitments p)(NodeID X c \<mapsto> c))"
proof -
  define q where "q = (if memberSet p = {} then computeMemberSets p else p)"
  note f = filled_caches [OF assms q_def]
  have v: "caches_valid (q\<lparr>ExecuteCommitments := m\<rparr>)" for m
    using f(4) caches_valid_cong [of "q\<lparr>ExecuteCommitments := m\<rparr>" q] by simp
  from add_shape [OF assms, of X blk nl c mv]
  show ?thesis
    unfolding q_def [symmetric] using f v assms by (elim disjE conjE exE) simp_all
qed

lemma process_effect:
  "Committee (fst (ProcessCommitments X iter p dt)) = Committee p \<and>
   memberSet (fst (ProcessCommitments X iter p dt)) = memberSet p \<and>
   workerSet (fst (ProcessCommitments X iter p dt)) = workerSet p \<and>
   ExecuteCommitments (fst (ProcessCommitments X iter p dt)) = ExecuteCommitments p \<and>
   (Discrepancy p \<longrightarrow> Discrepancy (fst (ProcessCommitments X iter p dt)))"
proof -
  obtain p' r where pc: "ProcessCommitments X iter p dt = (p', r)"
    by (cases "ProcessCommitments X iter p dt") auto
  from process_pool [OF pc] show ?thesis by (auto simp: pc)
qed

lemma finalize_effect:
  "Committee (fst (TryFinalize X iter p h rt dt au)) = Committee p \<and>
   memberSet (fst (TryFinalize X iter p h rt dt au)) = memberSet p \<and>
   workerSet (fst (TryFinalize X iter p h rt dt au)) = workerSet p \<and>
   ExecuteCommitments (fst (TryFinalize X iter p h rt dt au)) = ExecuteCommitments p \<and>
   (Discrepancy p \<longrightarrow> Discrepancy (fst (TryFinalize X iter p h rt dt au)))"
proof -
  obtain p' r where pc: "ProcessCommitments X iter p dt = (p', r)"
    by (cases "ProcessCommitments X iter p dt") auto
  from process_pool [OF pc] show ?thesis
    by (auto simp: TryFinalize_def tryFinalizeSwitch_def pc split: sum.splits)
qed

lemma check_effect:
  assumes "caches_valid p"
  shows "Committee (fst (CheckProposerTimeout X p blk nl pk r)) = Committee p \<and>
         Discrepancy (fst (CheckProposerTimeout X p blk nl pk r)) = Discrepancy p \<and>
         caches_valid (fst (CheckProposerTimeout X p blk nl pk r)) \<and>
         ExecuteCommitments (fst (CheckProposerTimeout X p blk nl pk r)) = ExecuteCommitments p"
proof (cases "Committee p")
  case None
  then show ?thesis using assms by (simp add: CheckProposerTimeout_def)
next
  case (Some cm)
  define q where "q = (if workerSet p = {} then computeMemberSets p else p)"
  note f = filled_worker_caches [OF assms q_def]
  have iw: "isWorker p pk = (q, pk \<in> workerKeys p)"
    by (simp add: isWorker_valid [OF assms Some] q_def)
  show ?thesis using f assms
    by (simp add: CheckProposerTimeout_def Some iw)
qed

lemma isMember_discrepancy: "Discrepancy (fst (isMember p pk)) = Discrepancy p"
  by (simp add: isMember_def Let_def computeMemberSets_fields split: option.splits)

lemma isWorker_discrepancy: "Discrepancy (fst (isWorker p pk)) = Discrepancy p"
  by (simp add: isWorker_def Let_def computeMemberSets_fields split: option.splits)

lemma addVerified_discrepancy:
  "Discrepancy (fst (addVerifiedExecutorCommitment X p blk nl mv c)) = Discrepancy p"
proof -
  obtain p1 m where im: "isMember p (NodeID X c) = (p1, m)"
    by (cases "isMember p (NodeID X c)") auto
  then have d: "Discrepancy p1 = Discrepancy p"
    using isMember_discrepancy [of p "NodeID X c"] by simp
  show ?thesis
    using d
    by (simp add: addVerifiedExecutorCommitment_def im split: option.splits prod.splits)
qed

lemma add_discrepancy:
  "Discrepancy (fst (AddExecutorCommitment X p blk nl c mv)) = Discrepancy p"
  by (simp add: AddExecutorCommitment_def addVerified_discrepancy split: option.splits)

lemma check_discrepancy:
  "Discrepancy (fst (CheckProposerTimeout X p blk nl pk r)) = Discrepancy p"
proof -
  obtain p1 w where iw: "isWorker p pk = (p1, w)"
    by (cases "isWorker p pk") auto
  then have d: "Discrepancy p1 = Discrepancy p"
    using isWorker_discrepancy [of p pk] by simp
  show ?thesis
    using d by (simp add: CheckProposerTimeout_def iw split: option.splits)
qed

section \<open>The commitments belong to committee members\<close>

lemma invariant_transfer:
  assumes "pool_invariant p" and "caches_valid q" and "Committee q = Committee p"
    and "dom (ExecuteCommitments q) \<subseteq> dom (ExecuteCommitments p) \<union> committeeKeys p"
  shows "pool_invariant q"
proof -
  have "committeeKeys q = committeeKeys p" by (rule committeeKeys_cong [OF assms(3)])
  then show ?thesis using assms by (auto simp: pool_invariant_def)
qed

lemma step_invariant:
  assumes "pool_invariant p"
  shows "pool_invariant (step X p op)"
proof -
  have cv: "caches_valid p" using assms by (simp add: pool_invariant_def)
  show ?thesis
  proof (cases op)
    case (OpResetCommitments r)
    have "caches_valid (ResetCommitments p r)"
      using cv caches_valid_cong [of "ResetCommitments p r" p] by (simp add: ResetCommitments_def)
    then show ?thesis using OpResetCommitments
      by (intro invariant_transfer [OF assms]) (simp_all add: ResetCommitments_def)
  next
    case (OpAddExecutorCommitment blk nl c mv)
    from add_effect [OF cv, of X blk nl c mv] show ?thesis
      unfolding OpAddExecutorCommitment step.simps
      by (intro invariant_transfer [OF assms]) (auto split: if_splits)
  next
    case (OpProcessCommitments iter dt)
    let ?q = "fst (ProcessCommitments X iter p dt)"
    have "caches_valid ?q"
      using cv caches_valid_cong [of ?q p] process_effect [of X iter p dt] by simp
    then show ?thesis
      unfolding OpProcessCommitments step.simps using process_effect [of X iter p dt]
      by (intro invariant_transfer [OF assms]) auto
  next
    case (OpCheckProposerTimeout blk nl pk r)
    from check_effect [OF cv, of X blk nl pk r] show ?thesis
      unfolding OpCheckProposerTimeout step.simps
      by (intro invariant_transfer [OF assms]) auto
  next
    case (OpTryFinalize iter h rt dt au)
    let ?q = "fst (TryFinalize X iter p h rt dt au)"
    have "caches_valid ?q"
      using cv caches_valid_cong [of ?q p] finalize_effect [of X iter p h rt dt au] by simp
    then show ?thesis
      unfolding OpTryFinalize step.simps using finalize_effect [of X iter p h rt dt au]
      by (intro invariant_transfer [OF assms]) auto
  next
    case (OpIsTimeout h)
    then show ?thesis using assms by simp
  qed
qed

lemma run_invariant: "pool_invariant p \<Longrightarrow> pool_invariant (run X p ops)"
  unfolding run_def by (induction ops arbitrary: p) (simp_all add: step_invariant)

lemma step_keeps_entries:
  assumes "caches_valid p" and "\<not> is_reset op" and "ExecuteCommitments p k = Some c"
  shows "ExecuteCommitments (step X p op) k = Some c"
proof (cases op)
  case (OpResetCommitments r)
  then show ?thesis using assms by simp
next
  case (OpAddExecutorCommitment blk nl c' mv)
  from add_effect [OF assms(1), of X blk nl c' mv] assms(3) show ?thesis
    using OpAddExecutorCommitment by auto
next
  case (OpProcessCommitments iter dt)
  from process_effect [of X iter p dt] assms(3) show ?thesis
    using OpProcessCommitments by simp
next
  case (OpCheckProposerTimeout blk nl pk r)
  from check_effect [OF assms(1), of X blk nl pk r] assms(3) show ?thesis
    using OpCheckProposerTimeout by simp
next
  case (OpTryFinalize iter h rt dt au)
  from finalize_effect [of X iter p h rt dt au] assms(3) show ?thesis
    using OpTryFinalize by simp
next
  case (OpIsTimeout h)
  then show ?thesis using assms by simp
qed

lemma sample_invariant: "pool_invariant (samplePool Map.empty d)"
  by (simp add: pool_invariant_def caches_valid_def samplePool_def)

text \<open>
  Claim C7. From a pool whose commitments are all keyed by committee members (and whose
  caches are empty or hold the committee's keys, as in a new pool), every sequence of
  operations leads to such a pool again. In such a pool, once the runtime, the signature,
  the committee and its kind are in order, \<open>AddExecutorCommitment\<close> answers
  \<open>ErrNotInCommittee\<close> to a node that is not a member and \<open>ErrAlreadyCommitted\<close> to a node
  that has a commitment, and leaves the commitments as they are; and no operation other
  than \<open>ResetCommitments\<close> removes or replaces an entry.
\<close>

theorem commitments_of_members:
  assumes "pool_invariant p"
  shows "pool_invariant (run X p ops) \<and>
     dom (ExecuteCommitments (run X p ops)) \<subseteq> committeeKeys (run X p ops) \<and>
     (Runtime p = Some rt \<and> Verify X c (ID rt) = None \<and> Committee p = Some cm \<and>
      Kind cm = KindComputeExecutor \<longrightarrow>
        (NodeID X c \<notin> committeeKeys p \<longrightarrow>
           snd (AddExecutorCommitment X p blk nl c mv) = (Some ErrNotInCommittee, []) \<and>
           ExecuteCommitments (fst (AddExecutorCommitment X p blk nl c mv)) =
             ExecuteCommitments p) \<and>
        (ExecuteCommitments p (NodeID X c) \<noteq> None \<longrightarrow>
           snd (AddExecutorCommitment X p blk nl c mv) = (Some ErrAlreadyCommitted, []) \<and>
           ExecuteCommitments (fst (AddExecutorCommitment X p blk nl c mv)) =
             ExecuteCommitments p)) \<and>
     (\<forall>k c'. \<not> is_reset op \<and> ExecuteCommitments p k = Some c' \<longrightarrow>
        ExecuteCommitments (step X p op) k = Some c')"
proof -
  have cv: "caches_valid p" and dm: "dom (ExecuteCommitments p) \<subseteq> committeeKeys p"
    using assms by (simp_all add: pool_invariant_def)
  have inv: "pool_invariant (run X p ops)" by (rule run_invariant [OF assms])
  then have sub: "dom (ExecuteCommitments (run X p ops)) \<subseteq> committeeKeys (run X p ops)"
    by (simp add: pool_invariant_def)
  have add: "(NodeID X c \<notin> committeeKeys p \<longrightarrow>
           snd (AddExecutorCommitment X p blk nl c mv) = (Some ErrNotInCommittee, []) \<and>
           ExecuteCommitments (fst (AddExecutorCommitment X p blk nl c mv)) =
             ExecuteCommitments p) \<and>
        (ExecuteCommitments p (NodeID X c) \<noteq> None \<longrightarrow>
           snd (AddExecutorCommitment X p blk nl c mv) = (Some ErrAlreadyCommitted, []) \<and>
           ExecuteCommitments (fst (AddExecutorCommitment X p blk nl c mv)) =
             ExecuteCommitments p)"
    if h: "Runtime p = Some rt" "Verify X c (ID rt) = None" "Committee p = Some cm"
      "Kind cm = KindComputeExecutor"
  proof -
    have m: "ExecuteCommitments p (NodeID X c) \<noteq> None \<Longrightarrow> NodeID X c \<in> committeeKeys p"
      using dm by auto
    show ?thesis
      using h m
      by (auto simp: AddExecutorCommitment_def addVerifiedExecutorCommitment_def
          isMember_valid [OF cv h(3)] computeMemberSets_fields)
  qed
  have keep: "\<forall>k c'. \<not> is_reset op \<and> ExecuteCommitments p k = Some c' \<longrightarrow>
        ExecuteCommitments (step X p op) k = Some c'"
    using step_keeps_entries [OF cv] by blast
  show ?thesis using inv sub add keep by blast
qed

theorem commitments_of_members_witness:
  "dom (ExecuteCommitments (run sampleExternals (samplePool Map.empty False)
          [OpAddExecutorCommitment sampleBlock (\<lambda>n. None) (failure 2) None,
           OpProcessCommitments id False]))
     \<subseteq> committeeKeys (run sampleExternals (samplePool Map.empty False)
          [OpAddExecutorCommitment sampleBlock (\<lambda>n. None) (failure 2) None,
           OpProcessCommitments id False]) \<and>
   snd (AddExecutorCommitment sampleExternals (samplePool Map.empty False) sampleBlock
          (\<lambda>n. None) (verdict 9 10) None) = (Some ErrNotInCommittee, [])"
proof -
  let ?p = "samplePool Map.empty False"
  have h: "Runtime ?p = Some sampleRuntime \<and>
      Verify sampleExternals (verdict 9 10) (ID sampleRuntime) = None \<and>
      Committee ?p = Some sampleCommittee \<and> Kind sampleCommittee = KindComputeExecutor"
    by (simp add: sample_defs)
  have n: "NodeID sampleExternals (verdict 9 10) \<notin> committeeKeys ?p"
    by (simp add: committeeKeys_def sample_defs)
  from commitments_of_members [OF sample_invariant, of sampleExternals False
      "[OpAddExecutorCommitment sampleBlock (\<lambda>n. None) (failure 2) None,
        OpProcessCommitments id False]"
      sampleRuntime "verdict 9 10" sampleCommittee sampleBlock "\<lambda>n. None" None]
    h n
  show ?thesis by blast
qed

section \<open>The discrepancy flag\<close>

lemma step_discrepancy:
  assumes "\<not> is_reset op" and "Discrepancy p"
  shows "Discrepancy (step X p op)"
proof (cases op)
  case (OpResetCommitments r)
  then show ?thesis using assms by simp
next
  case (OpAddExecutorCommitment blk nl c' mv)
  then show ?thesis using assms(2) by (simp add: add_discrepancy)
next
  case (OpProcessCommitments iter dt)
  from process_effect [of X iter p dt] assms(2) show ?thesis
    using OpProcessCommitments by simp
next
  case (OpCheckProposerTimeout blk nl pk r)
  then show ?thesis using assms(2) by (simp add: check_discrepancy)
next
  case (OpTryFinalize iter h rt dt au)
  from finalize_effect [of X iter p h rt dt au] assms(2) show ?thesis
    using OpTryFinalize by simp
next
  case (OpIsTimeout h)
  then show ?thesis using assms by simp
qed

lemma run_discrepancy:
  "\<forall>op \<in> set ops. \<not> is_reset op \<Longrightarrow> Discrepancy p \<Longrightarrow> Discrepancy (run X p ops)"
  unfolding run_def
proof (induction ops arbitrary: p)
  case Nil
  then show ?case by simp
next
  case (Cons op ops)
  have "Discrepancy (step X p op)"
    using step_discrepancy [of op p X] Cons.prems by simp
  then show ?case using Cons.IH [of "step X p op"] Cons.prems(1) by simp
qed

lemma gather_backup_only:
  "gatherVotes X True cs ms acc =
   gatherVotes X True cs (filter (\<lambda>n. Role n = RoleBackupWorker) ms) acc"
proof -
  obtain t c f vs where acc: "acc = (t, c, f, vs)" by (cases acc) auto
  show ?thesis
    unfolding acc gather_resolution by (simp add: activeMembers_def activeRole_def)
qed

lemma resolution_tally:
  assumes "Discrepancy q" and "iteration_order iter"
  shows "ProcessCommitments X iter q didTimeout = resolutionVerdict X q didTimeout"
proof (cases "Committee q")
  case None
  then show ?thesis by (simp add: ProcessCommitments_def resolutionVerdict_def)
next
  case (Some cm)
  show ?thesis
  proof (cases "Kind cm = KindComputeExecutor")
    case False
    then show ?thesis using Some by (simp add: ProcessCommitments_def resolutionVerdict_def)
  next
    case True
    have b: "activeMembers (Discrepancy q) (Members cm) = backupWorkers cm"
      using assms(1) by (simp add: activeMembers_def activeRole_def backupWorkers_def)
    have t: "tallied q cm = submitted (ExecuteCommitments q) (backupWorkers cm)"
      by (simp add: tallied_def b)
    have n: "countTotal q cm = int (length (backupWorkers cm))"
      by (simp add: countTotal_def b)
    have c: "countCommits q cm =
        int (length (submitted (ExecuteCommitments q) (backupWorkers cm)))"
      by (simp add: countCommits_def t)
    show ?thesis
    proof (cases "TransactionScheduler X cm (Round q)")
      case None
      then show ?thesis
        using Some True by (simp add: process_resolution [OF Some True assms(1)]
            resolutionVerdict_def)
    next
      case s: (Some proposer)
      show ?thesis
        unfolding process_resolution [OF Some True assms(1)] resolve_spec [OF assms(2)]
        using Some True s
        by (simp add: resolutionVerdict_def Let_def t n c split: option.splits)
    qed
  qed
qed

text \<open>
  Claim C8. No operation other than \<open>ResetCommitments\<close> unsets the discrepancy flag;
  \<open>ResetCommitments\<close> unsets it, empties the commitments and sets \<open>NextTimeout\<close> to
  \<open>TimeoutNever\<close>. So after \<open>ProcessCommitments\<close> has returned \<open>ErrDiscrepancyDetected\<close> in
  detection mode, the flag is set after every sequence of operations without a reset, and
  every later call of \<open>ProcessCommitments\<close>, for every iteration order and both values of
  \<open>didTimeout\<close>, leaves the pool as it is and returns the verdict of the tally of the
  backup workers: total, commits, votes and the winning commitment are those of the
  members with the backup role, and the loop computes what it computes on the backup
  workers alone. The workers are not tallied.
\<close>

theorem discrepancy_monotonic:
  "(\<not> is_reset op \<and> Discrepancy p \<longrightarrow> Discrepancy (step X p op)) \<and>
   (\<not> Discrepancy (ResetCommitments p r) \<and>
    ExecuteCommitments (ResetCommitments p r) = Map.empty \<and>
    NextTimeout (ResetCommitments p r) = TimeoutNever) \<and>
   (\<not> Discrepancy p \<and>
    snd (ProcessCommitments X iter p didTimeout) = Inl ErrDiscrepancyDetected \<and>
    (\<forall>op \<in> set ops. \<not> is_reset op) \<longrightarrow>
      Discrepancy (run X (fst (ProcessCommitments X iter p didTimeout)) ops) \<and>
      (\<forall>iter' didTimeout'. iteration_order iter' \<longrightarrow>
         ProcessCommitments X iter'
           (run X (fst (ProcessCommitments X iter p didTimeout)) ops) didTimeout' =
         resolutionVerdict X
           (run X (fst (ProcessCommitments X iter p didTimeout)) ops) didTimeout') \<and>
      (\<forall>cm. Committee (run X (fst (ProcessCommitments X iter p didTimeout)) ops) = Some cm \<longrightarrow>
         gatherVotes X
           (Discrepancy (run X (fst (ProcessCommitments X iter p didTimeout)) ops))
           (ExecuteCommitments (run X (fst (ProcessCommitments X iter p didTimeout)) ops))
           (Members cm) (0, 0, 0, []) =
         gatherVotes X True
           (ExecuteCommitments (run X (fst (ProcessCommitments X iter p didTimeout)) ops))
           (filter (\<lambda>n. Role n = RoleBackupWorker) (Members cm)) (0, 0, 0, [])))"
proof -
  have a: "\<not> is_reset op \<and> Discrepancy p \<longrightarrow> Discrepancy (step X p op)"
    using step_discrepancy by blast
  have b: "\<not> Discrepancy (ResetCommitments p r) \<and>
      ExecuteCommitments (ResetCommitments p r) = Map.empty \<and>
      NextTimeout (ResetCommitments p r) = TimeoutNever"
    by (simp add: ResetCommitments_def)
  have c: "Discrepancy (run X (fst (ProcessCommitments X iter p didTimeout)) ops) \<and>
      (\<forall>iter' didTimeout'. iteration_order iter' \<longrightarrow>
         ProcessCommitments X iter'
           (run X (fst (ProcessCommitments X iter p didTimeout)) ops) didTimeout' =
         resolutionVerdict X
           (run X (fst (ProcessCommitments X iter p didTimeout)) ops) didTimeout') \<and>
      (\<forall>cm. Committee (run X (fst (ProcessCommitments X iter p didTimeout)) ops) = Some cm \<longrightarrow>
         gatherVotes X
           (Discrepancy (run X (fst (ProcessCommitments X iter p didTimeout)) ops))
           (ExecuteCommitments (run X (fst (ProcessCommitments X iter p didTimeout)) ops))
           (Members cm) (0, 0, 0, []) =
         gatherVotes X True
           (ExecuteCommitments (run X (fst (ProcessCommitments X iter p didTimeout)) ops))
           (filter (\<lambda>n. Role n = RoleBackupWorker) (Members cm)) (0, 0, 0, []))"
    if h: "snd (ProcessCommitments X iter p didTimeout) = Inl ErrDiscrepancyDetected"
      "\<forall>op \<in> set ops. \<not> is_reset op"
  proof -
    let ?p1 = "fst (ProcessCommitments X iter p didTimeout)"
    obtain p' res where pc: "ProcessCommitments X iter p didTimeout = (p', res)"
      by (cases "ProcessCommitments X iter p didTimeout") auto
    from process_pool [OF pc] h(1) have d1: "Discrepancy ?p1" by (auto simp: pc)
    have d: "Discrepancy (run X ?p1 ops)" by (rule run_discrepancy [OF h(2) d1])
    have v: "ProcessCommitments X iter' (run X ?p1 ops) didTimeout' =
        resolutionVerdict X (run X ?p1 ops) didTimeout'"
      if "iteration_order iter'" for iter' didTimeout'
      by (rule resolution_tally [OF d that])
    have "gatherVotes X (Discrepancy (run X ?p1 ops)) cs ms acc =
        gatherVotes X True cs (filter (\<lambda>n. Role n = RoleBackupWorker) ms) acc" for cs ms acc
      using d gather_backup_only [of X cs ms acc] by simp
    then show ?thesis using d v by blast
  qed
  show ?thesis using a b c by blast
qed

text \<open>
  Workers 1 and 2 disagree, which is detected; then the two backup workers commit to the
  verdict of worker 1, the proposer. The next tally counts the two backup workers and
  returns the proposer's commitment.
\<close>

theorem discrepancy_monotonic_witness:
  "Discrepancy
     (run sampleExternals
        (fst (ProcessCommitments sampleExternals id
                (samplePool [1 \<mapsto> verdict 1 10, 2 \<mapsto> verdict 2 20] False) False))
        [OpAddExecutorCommitment sampleBlock (\<lambda>n. None) (verdict 4 10) None,
         OpAddExecutorCommitment sampleBlock (\<lambda>n. None) (verdict 5 10) None]) \<and>
   snd (ProcessCommitments sampleExternals rev
     (run sampleExternals
        (fst (ProcessCommitments sampleExternals id
                (samplePool [1 \<mapsto> verdict 1 10, 2 \<mapsto> verdict 2 20] False) False))
        [OpAddExecutorCommitment sampleBlock (\<lambda>n. None) (verdict 4 10) None,
         OpAddExecutorCommitment sampleBlock (\<lambda>n. None) (verdict 5 10) None]) False) =
     Inr (verdict 1 10)"
proof -
  let ?p = "samplePool [1 \<mapsto> verdict 1 10, 2 \<mapsto> verdict 2 20] False"
  let ?ops = "[OpAddExecutorCommitment sampleBlock (\<lambda>n. None) (verdict 4 10) None,
         OpAddExecutorCommitment sampleBlock (\<lambda>n. None) (verdict 5 10) None]"
  let ?q = "run sampleExternals (fst (ProcessCommitments sampleExternals id ?p False)) ?ops"
  have h: "\<not> Discrepancy ?p \<and>
      snd (ProcessCommitments sampleExternals id ?p False) = Inl ErrDiscrepancyDetected \<and>
      (\<forall>op \<in> set ?ops. \<not> is_reset op)"
    by (simp add: ProcessCommitments_def addVote_def sample_defs)
  have it: "iteration_order (rev :: SampleCommitment votes \<Rightarrow> SampleCommitment votes)"
    by (simp add: iteration_order_def)
  have p1: "fst (ProcessCommitments sampleExternals id ?p False) =
      samplePool [1 \<mapsto> verdict 1 10, 2 \<mapsto> verdict 2 20] True"
    by (simp add: ProcessCommitments_def addVote_def sample_defs)
  have q: "?q = (samplePool [1 \<mapsto> verdict 1 10, 2 \<mapsto> verdict 2 20, 4 \<mapsto> verdict 4 10,
        5 \<mapsto> verdict 5 10] True)\<lparr>memberSet := {1, 2, 3, 4, 5}, workerSet := {1, 2, 3}\<rparr>"
    unfolding p1
    by (simp add: run_def AddExecutorCommitment_def addVerifiedExecutorCommitment_def
        isMember_def computeMemberSets_def checkCommitment_def verifyAttestation_def
        checkMessages_def isScheduler_def sample_defs insert_commute)
  let ?cs = "[Suc 0 \<mapsto> verdict (Suc 0) 10, 2 \<mapsto> verdict 2 20, 4 \<mapsto> verdict 4 10,
      5 \<mapsto> verdict 5 10]"
  have k: "Kind sampleCommittee = KindComputeExecutor" by (simp add: sampleCommittee_def)
  have sc: "TransactionScheduler sampleExternals sampleCommittee 0 =
      Some \<lparr>Role = RoleWorker, PublicKey = 1\<rparr>"
    by (simp add: sampleExternals_def sampleScheduler_def sampleCommittee_def)
  have bw: "length (backupWorkers sampleCommittee) = 2"
    by (simp add: backupWorkers_def sampleCommittee_def)
  have cl: "submitted ?cs (backupWorkers sampleCommittee) = [verdict 4 10, verdict 5 10]"
    by (simp add: submitted_def backupWorkers_def sampleCommittee_def)
  have vt: "voting sampleExternals [verdict 4 10, verdict 5 10] = [verdict 4 10, verdict 5 10]"
    by (simp add: voting_def sampleExternals_def verdict_def)
  have tf: "tallyFor sampleExternals (ToVote sampleExternals (verdict n 10))
      [verdict 4 10, verdict 5 10] = 2" for n
    by (simp add: tallyFor_def sampleExternals_def verdict_def)
  have top: "topTally sampleExternals [verdict 4 10, verdict 5 10] = 2"
    by (simp add: topTally_def tf)
  have win: "winner sampleExternals [verdict 4 10, verdict 5 10] 2 = Some (verdict 4 10)"
    by (simp add: winner_def tf)
  have me: "MostlyEqual sampleExternals (verdict (Suc 0) 10) (verdict 4 10)"
    by (simp add: sampleExternals_def verdict_def)
  have r: "snd (resolutionVerdict sampleExternals ?q False) = Inr (verdict 1 10)"
    unfolding q
    by (simp add: resolutionVerdict_def samplePool_def k sc bw cl vt top win me Let_def)
  from discrepancy_monotonic [where X = sampleExternals and iter = id and p = ?p
      and didTimeout = False and ops = ?ops] h
  have "Discrepancy ?q \<and>
      (\<forall>iter' didTimeout'. iteration_order iter' \<longrightarrow>
         ProcessCommitments sampleExternals iter' ?q didTimeout' =
         resolutionVerdict sampleExternals ?q didTimeout')"
    by blast
  then show ?thesis using it r by simp
qed

end
